theory Spec2Isabelle
  imports Main "HOL-Library.AList"
begin

section \<open>Python values used by \<open>paperwork/frontend/util/config.py\<close>\<close>

text \<open>
  A Python \<open>str\<close> is a sequence of Unicode code points and a \<open>bytes\<close> object a sequence
  of octets; both are lists of natural numbers here. \<open>lit\<close> embeds an ASCII literal of
  the source.
\<close>

type_synonym str = "nat list"
type_synonym bytes = "nat list"

definition lit :: "string \<Rightarrow> str" where
  "lit s = map of_char s"

lemma lit_simps: "lit [] = []" "lit (c # cs) = of_char c # lit cs"
  by (simp_all add: lit_def)

text \<open>The exceptions the module raises, catches or lets through.\<close>

datatype error =
    NoSectionError
  | NoOptionError
  | ValueError
  | KeyError str
  | PyinsaneException str
  | UnicodeEncodeError
  | UnicodeDecodeError
  | BinasciiError

text \<open>\<open>except (configparser.NoOptionError, configparser.NoSectionError)\<close>\<close>

fun is_missing :: "error \<Rightarrow> bool" where
  "is_missing NoSectionError = True"
| "is_missing NoOptionError = True"
| "is_missing _ = False"

subsection \<open>\<open>str.strip()\<close>\<close>

text \<open>
  \<open>str.isspace\<close>: the code points CPython's \<open>_PyUnicode_IsWhitespace\<close> accepts.
\<close>

definition is_space :: "nat \<Rightarrow> bool" where
  "is_space c \<longleftrightarrow>
     (9 \<le> c \<and> c \<le> 13) \<or> (28 \<le> c \<and> c \<le> 32) \<or> c = 133 \<or> c = 160 \<or> c = 5760
     \<or> (8192 \<le> c \<and> c \<le> 8202) \<or> c = 8232 \<or> c = 8233 \<or> c = 8239 \<or> c = 8287
     \<or> c = 12288"

definition strip :: "str \<Rightarrow> str" where
  "strip s = rev (dropWhile is_space (rev (dropWhile is_space s)))"

subsection \<open>Exceptions as values\<close>

text \<open>
  A computation that may raise returns \<open>Inl\<close> of the exception. \<open>ebind\<close> sequences two
  statements; \<open>try_except body catches handler\<close> is
  \<open>try: body  except <catches> as e: handler e\<close>.
\<close>

definition ebind :: "error + 'a \<Rightarrow> ('a \<Rightarrow> error + 'b) \<Rightarrow> error + 'b" where
  "ebind m f = (case m of Inl e \<Rightarrow> Inl e | Inr x \<Rightarrow> f x)"

definition try_except ::
  "error + 'a \<Rightarrow> (error \<Rightarrow> bool) \<Rightarrow> (error \<Rightarrow> error + 'a) \<Rightarrow> error + 'a" where
  "try_except body catches handler =
     (case body of Inl e \<Rightarrow> if catches e then handler e else Inl e | Inr x \<Rightarrow> Inr x)"

subsection \<open>The persisted store\<close>

text \<open>
  Modelled from the spec: the persisted store collaborator (the parser object that
  \<open>PaperworkConfig\<close> hands to every \<open>load\<close> and \<open>update\<close>) is not in this module.
  Section 6 of the specification gives it section/key string-valued get and set
  operations, get raising a missing-section or missing-option condition when the entry
  is absent. The store is a finite association list from (section, key) to the value;
  the sections of all settings exist (the registry creates them before loading), so an
  absent entry is a missing option and \<open>set\<close> does not fail.
\<close>

type_synonym store = "((str \<times> str) \<times> str) list"

definition cfg_get :: "store \<Rightarrow> str \<Rightarrow> str \<Rightarrow> error + str" where
  "cfg_get config sec key =
     (case map_of config (sec, key) of None \<Rightarrow> Inl NoOptionError | Some v \<Rightarrow> Inr v)"

definition cfg_set :: "store \<Rightarrow> str \<Rightarrow> str \<Rightarrow> str \<Rightarrow> store" where
  "cfg_set config sec key v = AList.update (sec, key) v config"

subsection \<open>\<open>int(str)\<close> and \<open>str(int)\<close>\<close>

text \<open>
  \<open>int(s)\<close> in base 10, as CPython reads a \<open>str\<close>: surrounding whitespace is skipped
  (the ASCII whitespace of \<open>Py_ISSPACE\<close>, and the Unicode whitespace beyond ASCII, which
  is first turned into spaces), then an optional sign, then decimal digits, where single
  underscores may separate digits (Python 3.6 and later). Anything else is a
  \<open>ValueError\<close>. Decimal digits of scripts other than ASCII, which \<open>int\<close> also accepts,
  are not modelled.
\<close>

definition is_digit :: "nat \<Rightarrow> bool" where
  "is_digit c \<longleftrightarrow> 48 \<le> c \<and> c \<le> 57"

definition int_space :: "nat \<Rightarrow> bool" where
  "int_space c \<longleftrightarrow> (9 \<le> c \<and> c \<le> 13) \<or> c = 32 \<or> (127 \<le> c \<and> is_space c)"

fun int_digits :: "nat \<Rightarrow> str \<Rightarrow> nat option" where
  "int_digits acc [] = Some acc"
| "int_digits acc (c # cs) =
     (if is_digit c then int_digits (10 * acc + (c - 48)) cs
      else if c = 95 then
        (case cs of
           [] \<Rightarrow> None
         | d # ds \<Rightarrow> if is_digit d then int_digits (10 * acc + (d - 48)) ds else None)
      else None)"

definition py_int :: "str \<Rightarrow> error + int" where
  "py_int s =
     (let t = rev (dropWhile int_space (rev (dropWhile int_space s))) in
      case t of
        [] \<Rightarrow> Inl ValueError
      | c # cs \<Rightarrow>
          (let body = (if c = 45 \<or> c = 43 then cs else t) in
           case body of
             [] \<Rightarrow> Inl ValueError
           | d # ds \<Rightarrow>
               if is_digit d then
                 (case int_digits (d - 48) ds of
                    None \<Rightarrow> Inl ValueError
                  | Some n \<Rightarrow> Inr (if c = 45 then - int n else int n))
               else Inl ValueError))"

text \<open>
  \<open>str(n)\<close> of an integer: its decimal digits, after a minus sign when negative. The
  limit that Python 3.11 and later put on the number of digits (4300 by default) is not
  modelled.
\<close>

fun str_nat :: "nat \<Rightarrow> str" where
  "str_nat n = (if n < 10 then [48 + n] else str_nat (n div 10) @ [48 + n mod 10])"

declare str_nat.simps [simp del]

definition py_str :: "int \<Rightarrow> str" where
  "py_str i = (if i < 0 then 45 # str_nat (nat (- i)) else str_nat (nat i))"

section \<open>Size Pair: \<open>_PaperworkSize\<close>\<close>

record size_pair =
  size_section :: str
  size_base_token :: str
  size_val :: "int \<times> int"
  default_size :: "int \<times> int"
  min_size :: "int \<times> int"

text \<open>\<open>__init__(self, section, base_token, default_size=(1024, 768), min_size=(400, 300))\<close>\<close>

definition size_init :: "str \<Rightarrow> str \<Rightarrow> int \<times> int \<Rightarrow> int \<times> int \<Rightarrow> size_pair" where
  "size_init sec tok dflt mn =
     \<lparr>size_section = sec, size_base_token = tok, size_val = dflt, default_size = dflt,
      min_size = mn\<rparr>"

text \<open>\<open>load\<close> (lines 200-213): only the two missing-entry exceptions are caught.\<close>

definition size_load :: "store \<Rightarrow> size_pair \<Rightarrow> error + size_pair" where
  "size_load config s =
     try_except
       (ebind (cfg_get config (size_section s) (size_base_token s @ lit ''_w'')) (\<lambda>w.
        ebind (py_int w) (\<lambda>w.
        let w = (if w < fst (min_size s) then fst (min_size s) else w) in
        ebind (cfg_get config (size_section s) (size_base_token s @ lit ''_h'')) (\<lambda>h.
        ebind (py_int h) (\<lambda>h.
        let h = (if h < snd (min_size s) then snd (min_size s) else h) in
        Inr (s\<lparr>size_val := (w, h)\<rparr>))))))
       is_missing
       (\<lambda>e. Inr (s\<lparr>size_val := default_size s\<rparr>))"

text \<open>\<open>update\<close> (lines 215-217)\<close>

definition size_update :: "store \<Rightarrow> size_pair \<Rightarrow> store" where
  "size_update config s =
     (let config = cfg_set config (size_section s) (size_base_token s @ lit ''_w'')
                     (py_str (fst (size_val s)))
      in cfg_set config (size_section s) (size_base_token s @ lit ''_h'')
           (py_str (snd (size_val s))))"

section \<open>Calibration Record: \<open>_PaperworkScannerCalibration\<close>\<close>

definition DEFAULT_CALIBRATION_RESOLUTION :: int where
  "DEFAULT_CALIBRATION_RESOLUTION = 200"

text \<open>The value is \<open>None\<close> or \<open>(resolution, ((pt_a_x, pt_a_y), (pt_b_x, pt_b_y)))\<close>.\<close>

record calibration =
  cal_section :: str
  cal_val :: "(int \<times> ((int \<times> int) \<times> (int \<times> int))) option"

definition calibration_init :: "str \<Rightarrow> calibration" where
  "calibration_init sec = \<lparr>cal_section = sec, cal_val = None\<rparr>"

text \<open>
  \<open>load\<close> (lines 87-116). The inner \<open>try\<close> keeps the default resolution when the
  resolution entry is missing; the outer one clears the record when a coordinate entry
  is missing. Neither catches the \<open>ValueError\<close> of \<open>int\<close>.
\<close>

definition calibration_load :: "store \<Rightarrow> calibration \<Rightarrow> error + calibration" where
  "calibration_load config c =
     try_except
       (ebind (ebind (cfg_get config (lit ''Scanner'') (lit ''Calibration_Pt_A_X'')) py_int)
          (\<lambda>pt_a_x.
        ebind (ebind (cfg_get config (lit ''Scanner'') (lit ''Calibration_Pt_A_Y'')) py_int)
          (\<lambda>pt_a_y.
        ebind (ebind (cfg_get config (lit ''Scanner'') (lit ''Calibration_Pt_B_X'')) py_int)
          (\<lambda>pt_b_x.
        ebind (ebind (cfg_get config (lit ''Scanner'') (lit ''Calibration_Pt_B_Y'')) py_int)
          (\<lambda>pt_b_y.
        let (pt_a_x, pt_b_x) = (if pt_a_x > pt_b_x then (pt_b_x, pt_a_x) else (pt_a_x, pt_b_x));
            (pt_a_y, pt_b_y) = (if pt_a_y > pt_b_y then (pt_b_y, pt_a_y) else (pt_a_y, pt_b_y))
        in
        ebind (try_except
                 (ebind (cfg_get config (lit ''Scanner'') (lit ''Calibration_Resolution''))
                    py_int)
                 is_missing
                 (\<lambda>e. Inr DEFAULT_CALIBRATION_RESOLUTION))
          (\<lambda>resolution.
        Inr (c\<lparr>cal_val := Some (resolution, ((pt_a_x, pt_a_y), (pt_b_x, pt_b_y)))\<rparr>)))))))
       is_missing
       (\<lambda>e. Inr (c\<lparr>cal_val := None\<rparr>))"

text \<open>\<open>update\<close> (lines 118-130)\<close>

definition calibration_update :: "store \<Rightarrow> calibration \<Rightarrow> store" where
  "calibration_update config c =
     (case cal_val c of
        None \<Rightarrow> config
      | Some (resolution, ((pt_a_x, pt_a_y), (pt_b_x, pt_b_y))) \<Rightarrow>
          (let config = cfg_set config (lit ''Scanner'') (lit ''Calibration_Resolution'')
                          (py_str resolution);
               config = cfg_set config (lit ''Scanner'') (lit ''Calibration_Pt_A_X'')
                          (py_str pt_a_x);
               config = cfg_set config (lit ''Scanner'') (lit ''Calibration_Pt_A_Y'')
                          (py_str pt_a_y);
               config = cfg_set config (lit ''Scanner'') (lit ''Calibration_Pt_B_X'')
                          (py_str pt_b_x)
           in cfg_set config (lit ''Scanner'') (lit ''Calibration_Pt_B_Y'') (py_str pt_b_y)))"

section \<open>Scan-Time Table: \<open>_ScanTimes\<close>\<close>

text \<open>
  Python floats are not modelled: the table is parametric in the type \<open>'f\<close> of the
  durations and in the conversion \<open>float_of\<close>, which stands for \<open>float(str)\<close> and
  returns \<open>Inl\<close> of the exception it raises on a string that is not a number.
\<close>

definition ITEM_2_CONFIG :: "(str \<times> str \<times> str) list" where
  "ITEM_2_CONFIG =
     [(lit ''calibration'', (lit ''Scanner'', lit ''ScanTimeCalibration'')),
      (lit ''normal'', (lit ''Scanner'', lit ''ScanTime'')),
      (lit ''ocr'', (lit ''OCR'', lit ''OCRTime''))]"

text \<open>\<open>values\<close> is a \<open>dict\<close> from phase names to durations.\<close>

record 'f scan_times =
  st_section :: str
  st_values :: "(str \<times> 'f) list"

definition scan_times_init :: "'f scan_times" where
  "scan_times_init = \<lparr>st_section = lit ''Scanner'', st_values = []\<rparr>"

text \<open>The body of the loop of \<open>load\<close> (lines 54-59), for one phase.\<close>

definition scan_times_load_item ::
  "(str \<Rightarrow> error + 'f) \<Rightarrow> store \<Rightarrow> str \<times> str \<times> str \<Rightarrow> (str \<times> 'f) list
   \<Rightarrow> error + (str \<times> 'f) list" where
  "scan_times_load_item float_of config item values =
     (case item of (k, cfg) \<Rightarrow>
        try_except
          (ebind (ebind (cfg_get config (fst cfg) (snd cfg)) float_of) (\<lambda>v.
           Inr (AList.update k v values)))
          is_missing
          (\<lambda>e. Inr (if map_of values k \<noteq> None then AList.delete k values else values)))"

text \<open>
  The loop: an exception leaves the loop, and the phases handled before it keep their
  new values.
\<close>

fun scan_times_load_items ::
  "(str \<Rightarrow> error + 'f) \<Rightarrow> store \<Rightarrow> (str \<times> str \<times> str) list \<Rightarrow> (str \<times> 'f) list
   \<Rightarrow> error option \<times> (str \<times> 'f) list" where
  "scan_times_load_items float_of config [] values = (None, values)"
| "scan_times_load_items float_of config (item # items) values =
     (case scan_times_load_item float_of config item values of
        Inl e \<Rightarrow> (Some e, values)
      | Inr values' \<Rightarrow> scan_times_load_items float_of config items values')"

definition scan_times_load ::
  "(str \<Rightarrow> error + 'f) \<Rightarrow> store \<Rightarrow> 'f scan_times \<Rightarrow> error option \<times> 'f scan_times" where
  "scan_times_load float_of config t =
     (case scan_times_load_items float_of config ITEM_2_CONFIG (st_values t) of
        (e, values) \<Rightarrow> (e, t\<lparr>st_values := values\<rparr>))"

text \<open>\<open>__getitem__\<close> (lines 70-73); \<open>dflt\<close> stands for the float \<open>60.0\<close>.\<close>

definition scan_times_getitem :: "'f \<Rightarrow> 'f scan_times \<Rightarrow> str \<Rightarrow> 'f" where
  "scan_times_getitem dflt t item =
     (case map_of (st_values t) item of Some v \<Rightarrow> v | None \<Rightarrow> dflt)"

section \<open>Date Setting: \<open>_PaperworkDate\<close>\<close>

subsection \<open>The typed setting it wraps\<close>

text \<open>
  Modelled from the spec: \<open>PaperworkSetting\<close> is imported from the backend package and
  is not in this module. Section 4.1 of the specification: \<open>load\<close> reads (section, key)
  from the store; on success it converts the raw value through the declared conversion
  function; on a missing key or a conversion failure it applies the default-value
  provider and suppresses the error, so that no error reaches the caller.
\<close>

record 'a paperwork_setting =
  ps_section :: str
  ps_token :: str
  ps_default_value_func :: "unit \<Rightarrow> 'a option"
  ps_constructor :: "str \<Rightarrow> error + 'a"
  ps_value :: "'a option"

definition setting_load :: "store \<Rightarrow> 'a paperwork_setting \<Rightarrow> 'a paperwork_setting" where
  "setting_load config p =
     (case ebind (cfg_get config (ps_section p) (ps_token p)) (ps_constructor p) of
        Inr v \<Rightarrow> p\<lparr>ps_value := Some v\<rparr>
      | Inl e \<Rightarrow> p\<lparr>ps_value := ps_default_value_func p ()\<rparr>)"

text \<open>
  Modelled from the spec: the setting \<open>PaperworkSetting(section, token)\<close> that
  \<open>_PaperworkDate\<close> builds with two arguments. Its value is the stored string, or \<open>None\<close>
  when the entry is absent: \<open>_PaperworkDate.load\<close> tests it against \<open>None\<close> and hands it
  to \<open>strptime\<close>.
\<close>

definition string_setting :: "str \<Rightarrow> str \<Rightarrow> str paperwork_setting" where
  "string_setting sec tok =
     \<lparr>ps_section = sec, ps_token = tok, ps_default_value_func = (\<lambda>u. None),
      ps_constructor = Inr, ps_value = None\<rparr>"

subsection \<open>\<open>datetime.datetime.strptime(value, "%Y-%m-%d")\<close>\<close>

record datetime =
  year :: nat
  month :: nat
  day :: nat
  hour :: nat
  minute :: nat
  second :: nat
  microsecond :: nat

definition is_leap :: "nat \<Rightarrow> bool" where
  "is_leap y \<longleftrightarrow> y mod 4 = 0 \<and> (y mod 100 \<noteq> 0 \<or> y mod 400 = 0)"

definition days_in_month :: "nat \<Rightarrow> nat \<Rightarrow> nat" where
  "days_in_month y m =
     (if m = 2 then (if is_leap y then 29 else 28)
      else if m = 4 \<or> m = 6 \<or> m = 9 \<or> m = 11 then 30 else 31)"

text \<open>
  The format is compiled to the regular expression
  \<open>(\d\d\d\d)-(1[0-2]|0[1-9]|[1-9])-(3[01]|[12]\d|0[1-9]|[1-9]| [1-9])\<close>, matched at the
  start of the string; the alternatives are tried in this order. The month must be
  followed by the hyphen, so the alternative that matches is determined; for the day the
  first alternative that matches is taken and the string must end there. Digits are the
  ASCII digits.
\<close>

definition parse_m :: "str \<Rightarrow> (nat \<times> str) option" where
  "parse_m s =
     (if 3 \<le> length s \<and> s ! 0 = 49 \<and> 48 \<le> s ! 1 \<and> s ! 1 \<le> 50 \<and> s ! 2 = 45
        then Some (10 + (s ! 1 - 48), drop 3 s)
      else if 3 \<le> length s \<and> s ! 0 = 48 \<and> 49 \<le> s ! 1 \<and> s ! 1 \<le> 57 \<and> s ! 2 = 45
        then Some (s ! 1 - 48, drop 3 s)
      else if 2 \<le> length s \<and> 49 \<le> s ! 0 \<and> s ! 0 \<le> 57 \<and> s ! 1 = 45
        then Some (s ! 0 - 48, drop 2 s)
      else None)"

definition parse_d :: "str \<Rightarrow> (nat \<times> str) option" where
  "parse_d s =
     (if 2 \<le> length s \<and> s ! 0 = 51 \<and> 48 \<le> s ! 1 \<and> s ! 1 \<le> 49
        then Some (30 + (s ! 1 - 48), drop 2 s)
      else if 2 \<le> length s \<and> 49 \<le> s ! 0 \<and> s ! 0 \<le> 50 \<and> is_digit (s ! 1)
        then Some (10 * (s ! 0 - 48) + (s ! 1 - 48), drop 2 s)
      else if 2 \<le> length s \<and> s ! 0 = 48 \<and> 49 \<le> s ! 1 \<and> s ! 1 \<le> 57
        then Some (s ! 1 - 48, drop 2 s)
      else if 1 \<le> length s \<and> 49 \<le> s ! 0 \<and> s ! 0 \<le> 57
        then Some (s ! 0 - 48, drop 1 s)
      else if 2 \<le> length s \<and> s ! 0 = 32 \<and> 49 \<le> s ! 1 \<and> s ! 1 \<le> 57
        then Some (s ! 1 - 48, drop 2 s)
      else None)"

text \<open>
  A string the expression does not match, unconverted data after the day, the year 0
  and a day the month does not have are all \<open>ValueError\<close>.
\<close>

definition strptime_ymd :: "str \<Rightarrow> error + datetime" where
  "strptime_ymd s =
     (if 5 \<le> length s \<and> list_all is_digit (take 4 s) \<and> s ! 4 = 45 then
        (case parse_m (drop 5 s) of
           None \<Rightarrow> Inl ValueError
         | Some (m, rest) \<Rightarrow>
             (case parse_d rest of
                None \<Rightarrow> Inl ValueError
              | Some (d, rest') \<Rightarrow>
                  (let y = foldl (\<lambda>a c. 10 * a + (c - 48)) 0 (take 4 s) in
                   if rest' \<noteq> [] then Inl ValueError
                   else if y < 1 \<or> days_in_month y m < d then Inl ValueError
                   else Inr \<lparr>year = y, month = m, day = d, hour = 0, minute = 0, second = 0,
                             microsecond = 0\<rparr>)))
      else Inl ValueError)"

subsection \<open>The setting\<close>

text \<open>
  \<open>default_value_func\<close> reads the clock (\<open>datetime.datetime.today()\<close>) or returns a
  fixed date: it is a function of the clock reading at the time of the call.
\<close>

record date_setting =
  date_section :: str
  setting :: "str paperwork_setting"
  default_value_func :: "datetime \<Rightarrow> datetime option"
  date_val :: "datetime option"

definition date_init :: "str \<Rightarrow> str \<Rightarrow> (datetime \<Rightarrow> datetime option) \<Rightarrow> datetime \<Rightarrow> date_setting"
  where
  "date_init sec tok dvf now =
     \<lparr>date_section = sec, setting = string_setting sec tok, default_value_func = dvf,
      date_val = dvf now\<rparr>"

text \<open>
  \<open>load\<close> (lines 142-149). There is no \<open>try\<close>: what \<open>strptime\<close> raises leaves \<open>load\<close>.
\<close>

definition date_load :: "datetime \<Rightarrow> store \<Rightarrow> date_setting \<Rightarrow> error + date_setting" where
  "date_load now config d =
     (let d = d\<lparr>setting := setting_load config (setting d)\<rparr>;
          v = ps_value (setting d)
      in case v of
           None \<Rightarrow> Inr (d\<lparr>date_val := default_value_func d now\<rparr>)
         | Some v \<Rightarrow> ebind (strptime_ymd v) (\<lambda>dt. Inr (d\<lparr>date_val := Some dt\<rparr>)))"

section \<open>Recent List: \<open>_PaperworkRecent\<close>\<close>

record recent =
  section_name :: str
  base_token :: str
  max_length :: nat
  val :: "str list"

text \<open>\<open>__init__(self, section, base_token, max_length=10)\<close>; the capacity is a length.\<close>

definition recent_init :: "str \<Rightarrow> str \<Rightarrow> nat \<Rightarrow> recent" where
  "recent_init sec tok m = \<lparr>section_name = sec, base_token = tok, max_length = m, val = []\<rparr>"

text \<open>
  \<open>push\<close> (lines 227-236). \<open>self.value.pop(0)\<close> removes the first entry; the list is
  not empty there, since an entry has just been appended.
\<close>

definition push :: "recent \<Rightarrow> str \<Rightarrow> recent" where
  "push r v0 =
     (let v = strip v0 in
      if v = [] then r
      else if v \<in> set (val r) then r
      else
        (let r1 = r\<lparr>val := val r @ [v]\<rparr> in
         if length (val r1) > max_length r1 then r1\<lparr>val := tl (val r1)\<rparr> else r1))"

text \<open>A sequence of pushes, first to last.\<close>

fun push_all :: "recent \<Rightarrow> str list \<Rightarrow> recent" where
  "push_all r [] = r"
| "push_all r (v # vs) = push_all (push r v) vs"

subsection \<open>\<open>str.encode("utf-8")\<close> and \<open>bytes.decode("utf-8")\<close>\<close>

text \<open>
  A code point is encoded in one to four octets. The surrogates \<open>U+D800\<close> to \<open>U+DFFF\<close>,
  which a Python \<open>str\<close> can hold, have no encoding: \<open>encode\<close> raises
  \<open>UnicodeEncodeError\<close> (so does the model for a number beyond \<open>U+10FFFF\<close>, which no
  \<open>str\<close> holds).
\<close>

definition utf8_encode_char :: "nat \<Rightarrow> bytes option" where
  "utf8_encode_char c =
     (if c < 128 then Some [c]
      else if c < 2048 then Some [192 + c div 64, 128 + c mod 64]
      else if c < 65536 then
        (if 55296 \<le> c \<and> c \<le> 57343 then None
         else Some [224 + c div 4096, 128 + (c div 64) mod 64, 128 + c mod 64])
      else if c < 1114112 then
        Some [240 + c div 262144, 128 + (c div 4096) mod 64, 128 + (c div 64) mod 64,
              128 + c mod 64]
      else None)"

fun utf8_encode :: "str \<Rightarrow> error + bytes" where
  "utf8_encode [] = Inr []"
| "utf8_encode (c # cs) =
     (case utf8_encode_char c of
        None \<Rightarrow> Inl UnicodeEncodeError
      | Some bs \<Rightarrow> ebind (utf8_encode cs) (\<lambda>r. Inr (bs @ r)))"

text \<open>
  The strict decoder: a continuation octet is \<open>10xxxxxx\<close>; an encoding longer than
  needed, a surrogate, a number beyond \<open>U+10FFFF\<close> and a truncated sequence are all
  \<open>UnicodeDecodeError\<close>.
\<close>

definition is_cont :: "nat \<Rightarrow> bool" where
  "is_cont b \<longleftrightarrow> 128 \<le> b \<and> b < 192"

fun utf8_decode :: "bytes \<Rightarrow> error + str" where
  "utf8_decode [] = Inr []"
| "utf8_decode (b0 # bs) =
     (if b0 < 128 then ebind (utf8_decode bs) (\<lambda>r. Inr (b0 # r))
      else if 192 \<le> b0 \<and> b0 < 224 then
        (case bs of
           b1 # r1 \<Rightarrow>
             (let c = (b0 - 192) * 64 + (b1 - 128) in
              if is_cont b1 \<and> 128 \<le> c then ebind (utf8_decode r1) (\<lambda>r. Inr (c # r))
              else Inl UnicodeDecodeError)
         | _ \<Rightarrow> Inl UnicodeDecodeError)
      else if 224 \<le> b0 \<and> b0 < 240 then
        (case bs of
           b1 # b2 # r2 \<Rightarrow>
             (let c = (b0 - 224) * 4096 + (b1 - 128) * 64 + (b2 - 128) in
              if is_cont b1 \<and> is_cont b2 \<and> 2048 \<le> c \<and> \<not> (55296 \<le> c \<and> c \<le> 57343)
              then ebind (utf8_decode r2) (\<lambda>r. Inr (c # r))
              else Inl UnicodeDecodeError)
         | _ \<Rightarrow> Inl UnicodeDecodeError)
      else if 240 \<le> b0 \<and> b0 < 248 then
        (case bs of
           b1 # b2 # b3 # r3 \<Rightarrow>
             (let c = (b0 - 240) * 262144 + (b1 - 128) * 4096 + (b2 - 128) * 64 + (b3 - 128) in
              if is_cont b1 \<and> is_cont b2 \<and> is_cont b3 \<and> 65536 \<le> c \<and> c < 1114112
              then ebind (utf8_decode r3) (\<lambda>r. Inr (c # r))
              else Inl UnicodeDecodeError)
         | _ \<Rightarrow> Inl UnicodeDecodeError)
      else Inl UnicodeDecodeError)"

subsection \<open>\<open>base64.encodebytes\<close> and \<open>base64.decodebytes\<close>\<close>

text \<open>The alphabet: \<open>A-Z\<close>, \<open>a-z\<close>, \<open>0-9\<close>, \<open>+\<close>, \<open>/\<close>; the pad is \<open>=\<close> (61).\<close>

definition b64_char :: "nat \<Rightarrow> nat" where
  "b64_char n =
     (if n < 26 then 65 + n else if n < 52 then 71 + n else if n < 62 then n - 4
      else if n = 62 then 43 else 47)"

definition table_a2b :: "nat \<Rightarrow> nat option" where
  "table_a2b c =
     (if 65 \<le> c \<and> c \<le> 90 then Some (c - 65)
      else if 97 \<le> c \<and> c \<le> 122 then Some (c - 71)
      else if 48 \<le> c \<and> c \<le> 57 then Some (c + 4)
      else if c = 43 then Some 62
      else if c = 47 then Some 63
      else None)"

text \<open>\<open>binascii.b2a_base64\<close>: three octets give four characters; then a newline.\<close>

fun b2a_groups :: "bytes \<Rightarrow> bytes" where
  "b2a_groups [] = []"
| "b2a_groups [a] = [b64_char (a div 4), b64_char (a mod 4 * 16), 61, 61]"
| "b2a_groups [a, b] =
     [b64_char (a div 4), b64_char (a mod 4 * 16 + b div 16), b64_char (b mod 16 * 4), 61]"
| "b2a_groups (a # b # c # rest) =
     [b64_char (a div 4), b64_char (a mod 4 * 16 + b div 16),
      b64_char (b mod 16 * 4 + c div 64), b64_char (c mod 64)] @ b2a_groups rest"

definition b2a_base64 :: "bytes \<Rightarrow> bytes" where
  "b2a_base64 chunk = b2a_groups chunk @ [10]"

text \<open>\<open>encodebytes\<close>: one line for every 57 octets of the input.\<close>

function encodebytes :: "bytes \<Rightarrow> bytes" where
  "encodebytes s = (if s = [] then [] else b2a_base64 (take 57 s) @ encodebytes (drop 57 s))"
  by pat_completeness auto
termination
  by (relation "measure length") auto

declare encodebytes.simps [simp del]

text \<open>
  \<open>binascii.a2b_base64\<close>, as current CPython (3.11 and later) decodes when not strict;
  earlier versions give the same result on what \<open>encodebytes\<close> produces. Characters
  outside the alphabet are skipped; a pad ends the input once it completes a group of
  four that has at least two data characters; input that ends inside a group is an
  error. The two parts of an output octet have no bit in common, so the \<open>|\<close> of the C
  code is a sum.
\<close>

fun a2b_loop :: "nat \<Rightarrow> nat \<Rightarrow> nat \<Rightarrow> bytes \<Rightarrow> bytes \<Rightarrow> error + bytes" where
  "a2b_loop quad_pos leftchar pads [] out =
     (if quad_pos \<noteq> 0 then Inl BinasciiError else Inr out)"
| "a2b_loop quad_pos leftchar pads (ch # rest) out =
     (if ch = 61 then
        (if 2 \<le> quad_pos \<and> 4 \<le> quad_pos + (pads + 1) then Inr out
         else a2b_loop quad_pos leftchar (if 2 \<le> quad_pos then pads + 1 else pads) rest out)
      else
        (case table_a2b ch of
           None \<Rightarrow> a2b_loop quad_pos leftchar pads rest out
         | Some v \<Rightarrow>
             if quad_pos = 0 then a2b_loop 1 v 0 rest out
             else if quad_pos = 1 then
               a2b_loop 2 (v mod 16) 0 rest (out @ [leftchar * 4 + v div 16])
             else if quad_pos = 2 then
               a2b_loop 3 (v mod 4) 0 rest (out @ [leftchar * 16 + v div 4])
             else a2b_loop 0 0 0 rest (out @ [leftchar * 64 + v])))"

definition decodebytes :: "bytes \<Rightarrow> error + bytes" where
  "decodebytes s = a2b_loop 0 0 0 s []"

text \<open>\<open>bytes.strip()\<close> removes ASCII whitespace at both ends.\<close>

definition bytes_space :: "nat \<Rightarrow> bool" where
  "bytes_space c \<longleftrightarrow> c = 32 \<or> (9 \<le> c \<and> c \<le> 13)"

definition bytes_strip :: "bytes \<Rightarrow> bytes" where
  "bytes_strip s = rev (dropWhile bytes_space (rev (dropWhile bytes_space s)))"

subsection \<open>\<open>update\<close> and \<open>load\<close>\<close>

text \<open>The key of the entry at position \<open>idx\<close>: \<open>self.base_token + "_" + str(idx)\<close>.\<close>

definition recent_key :: "recent \<Rightarrow> nat \<Rightarrow> str" where
  "recent_key r idx = base_token r @ lit ''_'' @ py_str (int idx)"

text \<open>Lines 254-256: what \<open>update\<close> stores for an entry.\<close>

definition encode_entry :: "str \<Rightarrow> error + str" where
  "encode_entry v =
     ebind (utf8_encode v) (\<lambda>v. utf8_decode (bytes_strip (encodebytes v)))"

text \<open>Lines 244-246: what \<open>load\<close> makes of a stored value.\<close>

definition decode_entry :: "str \<Rightarrow> error + str" where
  "decode_entry v = ebind (utf8_encode v) (\<lambda>v. ebind (decodebytes v) utf8_decode)"

text \<open>
  \<open>update\<close> (lines 252-257) writes entry after entry; an exception of the encoding
  leaves the loop with the entries before it written.
\<close>

fun recent_update_loop :: "recent \<Rightarrow> nat \<Rightarrow> str list \<Rightarrow> store \<Rightarrow> error option \<times> store" where
  "recent_update_loop r idx [] config = (None, config)"
| "recent_update_loop r idx (v # vs) config =
     (case encode_entry v of
        Inl e \<Rightarrow> (Some e, config)
      | Inr enc \<Rightarrow>
          recent_update_loop r (idx + 1) vs
            (cfg_set config (section_name r) (recent_key r idx) enc))"

definition recent_update :: "store \<Rightarrow> recent \<Rightarrow> error option \<times> store" where
  "recent_update config r = recent_update_loop r 0 (val r) config"

section \<open>Device Initializer: \<open>_get_scanner\<close> and \<open>get_scanner\<close>\<close>

subsection \<open>The registry and the driver\<close>

text \<open>
  Modelled from the spec: the Settings Registry (\<open>PaperworkConfig\<close>, from the backend
  package) is a mapping from setting names to settings. \<open>get_scanner\<close> reads the values
  of three of them: the device identifier and the source, each a string or \<open>None\<close>, and
  the resolution, an integer.
\<close>

record registry =
  scanner_devid :: "str option"
  scanner_source :: "str option"
  scanner_resolution :: int

text \<open>
  Modelled from the spec: the driver collaborator (\<open>pyinsane2\<close>) of section 6. It
  enumerates the devices, each with a name and a string-keyed option map, and exposes
  set-option and maximize-scan-area operations that may fail with the driver's own
  exception. The theory is parametric in the driver and in the type \<open>'d\<close> of the states of
  a device:
  \<^item> \<open>open_scanner\<close> is \<open>pyinsane2.Scanner(name=devid)\<close> together with the opening of the
    device that the first use of \<open>dev.options\<close> brings about; it fails with
    \<open>PyinsaneException\<close> or with \<open>KeyError\<close>, the two exceptions \<open>get_scanner\<close> expects of
    \<open>_get_scanner\<close>;
  \<^item> \<open>dev_options\<close> is \<open>dev.options\<close>, read from the state of the device;
  \<^item> \<open>set_scanner_opt\<close> and \<open>maximize_scan_area\<close> change the state and may raise
    \<open>PyinsaneException\<close> with a message;
  \<^item> \<open>get_devices\<close> gives the names of the devices: a device of the enumeration is used
    through its name only.
\<close>

datatype opt_value = OptInt int | OptStr str

record 'd driver =
  open_scanner :: "str option \<Rightarrow> error + 'd"
  dev_options :: "'d \<Rightarrow> (str \<times> opt_value) list"
  set_scanner_opt :: "'d \<Rightarrow> str \<Rightarrow> opt_value list \<Rightarrow> str option \<times> 'd"
  maximize_scan_area :: "'d \<Rightarrow> str option \<times> 'd"
  get_devices :: "error + str list"

text \<open>A driver call outside any \<open>try\<close>: its exception leaves the caller.\<close>

definition raising :: "str option \<times> 'd \<Rightarrow> error + 'd" where
  "raising res = (case res of (None, dev) \<Rightarrow> Inr dev | (Some msg, dev) \<Rightarrow> Inl (PyinsaneException msg))"

text \<open>\<open>int(v)\<close> of an option value.\<close>

definition int_of_opt :: "opt_value \<Rightarrow> error + int" where
  "int_of_opt v = (case v of OptInt n \<Rightarrow> Inr n | OptStr s \<Rightarrow> py_int s)"

fun is_KeyError :: "error \<Rightarrow> bool" where
  "is_KeyError (KeyError k) = True"
| "is_KeyError _ = False"

fun is_PyinsaneException :: "error \<Rightarrow> bool" where
  "is_PyinsaneException (PyinsaneException msg) = True"
| "is_PyinsaneException _ = False"

subsection \<open>The steps of \<open>_get_scanner\<close>\<close>

text \<open>
  Lines 353-360: the source. \<open>preferred_sources\<close> and \<open>config_source\<close> count when they
  are neither \<open>None\<close> nor empty. The call is outside any \<open>try\<close>.
\<close>

definition set_source ::
  "'d driver \<Rightarrow> registry \<Rightarrow> str list option \<Rightarrow> 'd \<Rightarrow> error + 'd" where
  "set_source drv config preferred_sources dev =
     (let config_source = scanner_source config in
      if map_of (dev_options drv dev) (lit ''source'') = None then Inr dev
      else
        (case preferred_sources of
           Some (p # ps) \<Rightarrow>
             raising (set_scanner_opt drv dev (lit ''source'') (map OptStr (p # ps)))
         | _ \<Rightarrow>
             (case config_source of
                Some (c # cs) \<Rightarrow>
                  raising (set_scanner_opt drv dev (lit ''source'') [OptStr (c # cs)])
              | _ \<Rightarrow> Inr dev)))"

text \<open>
  Lines 362-375: the resolution. When the driver rejects the configured value, the
  resolution becomes \<open>int(dev.options['resolution'].value)\<close>, read after the failed call.
\<close>

definition set_resolution :: "'d driver \<Rightarrow> registry \<Rightarrow> 'd \<Rightarrow> error + ('d \<times> int)" where
  "set_resolution drv config dev =
     (let resolution = scanner_resolution config in
      if map_of (dev_options drv dev) (lit ''resolution'') = None then Inr (dev, resolution)
      else
        (case set_scanner_opt drv dev (lit ''resolution'') [OptInt resolution] of
           (None, dev) \<Rightarrow> Inr (dev, resolution)
         | (Some exc, dev) \<Rightarrow>
             ebind (case map_of (dev_options drv dev) (lit ''resolution'') of
                      None \<Rightarrow> Inl (KeyError (lit ''resolution''))
                    | Some v \<Rightarrow> int_of_opt v)
               (\<lambda>resolution. Inr (dev, resolution))))"

text \<open>Lines 377-384: the mode; the driver's exception is logged.\<close>

definition set_mode :: "'d driver \<Rightarrow> 'd \<Rightarrow> 'd" where
  "set_mode drv dev =
     (if map_of (dev_options drv dev) (lit ''mode'') = None then dev
      else snd (set_scanner_opt drv dev (lit ''mode'') [OptStr (lit ''Color'')]))"

text \<open>Lines 386-390: the scan area; the driver's exception is logged.\<close>

definition maximize :: "'d driver \<Rightarrow> 'd \<Rightarrow> 'd" where
  "maximize drv dev = snd (maximize_scan_area drv dev)"

text \<open>\<open>_get_scanner(config, devid, preferred_sources)\<close> (lines 348-391)\<close>

definition get_scanner_priv ::
  "'d driver \<Rightarrow> registry \<Rightarrow> str option \<Rightarrow> str list option \<Rightarrow> error + ('d \<times> int)" where
  "get_scanner_priv drv config devid preferred_sources =
     ebind (open_scanner drv devid) (\<lambda>dev.
     ebind (set_source drv config preferred_sources dev) (\<lambda>dev.
     ebind (set_resolution drv config dev) (\<lambda>(dev, resolution).
     Inr (maximize drv (set_mode drv dev), resolution))))"

subsection \<open>\<open>get_scanner\<close>\<close>

text \<open>
  Lines 394-417. The outer handler catches \<open>KeyError\<close> and \<open>PyinsaneException\<close>; the
  handler around the fallback catches \<open>PyinsaneException\<close> only and raises the first
  exception instead. The bare \<open>raise\<close>, when the candidates are not exactly one, raises
  the first exception again.
\<close>

definition get_scanner ::
  "'d driver \<Rightarrow> registry \<Rightarrow> str list option \<Rightarrow> error + ('d \<times> int)" where
  "get_scanner drv config preferred_sources =
     (let devid = scanner_devid config in
      try_except
        (get_scanner_priv drv config devid preferred_sources)
        (\<lambda>e. is_KeyError e \<or> is_PyinsaneException e)
        (\<lambda>exc.
           try_except
             (ebind (get_devices drv) (\<lambda>all_devices.
              let devices = filter (\<lambda>x. take 4 x \<noteq> lit ''v4l:'') all_devices in
              case devices of
                [x] \<Rightarrow> get_scanner_priv drv config (Some x) preferred_sources
              | _ \<Rightarrow> Inl exc))
             is_PyinsaneException
             (\<lambda>e. Inl exc)))"

section \<open>Properties of the Recent List\<close>

lemma all_dropWhile: "(\<forall>x \<in> set (dropWhile P s). P x) \<longleftrightarrow> (\<forall>c \<in> set s. P c)"
proof
  assume a: "\<forall>x \<in> set (dropWhile P s). P x"
  have "dropWhile P s = []"
  proof (rule ccontr)
    assume "dropWhile P s \<noteq> []"
    then have "\<not> P (hd (dropWhile P s))" and "hd (dropWhile P s) \<in> set (dropWhile P s)"
      by (rule hd_dropWhile, rule hd_in_set)
    with a show False by blast
  qed
  then show "\<forall>c \<in> set s. P c" by (simp add: dropWhile_eq_Nil_conv)
next
  assume "\<forall>c \<in> set s. P c"
  then show "\<forall>x \<in> set (dropWhile P s). P x"
    using set_dropWhileD by fastforce
qed

lemma strip_Nil_iff: "strip s = [] \<longleftrightarrow> (\<forall>c \<in> set s. is_space c)"
  by (simp add: strip_def dropWhile_eq_Nil_conv all_dropWhile)

lemma hd_dropWhile_not: "dropWhile P xs \<noteq> [] \<Longrightarrow> \<not> P (hd (dropWhile P xs))"
  by (metis hd_dropWhile)

lemma dropWhile_id: "xs \<noteq> [] \<Longrightarrow> \<not> P (hd xs) \<Longrightarrow> dropWhile P xs = xs"
  by (cases xs) auto

lemma dropWhile_rev_dropWhile:
  "dropWhile P (rev (dropWhile P (rev (dropWhile P s)))) = rev (dropWhile P (rev (dropWhile P s)))"
proof (cases "dropWhile P (rev (dropWhile P s)) = []")
  case True
  then show ?thesis by (simp del: dropWhile_eq_Nil_conv)
next
  case False
  let ?d = "dropWhile P s"
  let ?e = "dropWhile P (rev ?d)"
  have dne: "?d \<noteq> []"
  proof
    assume "?d = []"
    then have "?e = []" by (simp only: rev.simps dropWhile.simps)
    with False show False by contradiction
  qed
  obtain ys where ys: "rev ?d = ys @ ?e"
    by (metis takeWhile_dropWhile_id)
  then have "?d = rev ?e @ rev ys"
    by (metis rev_append rev_rev_ident)
  with False have "hd (rev ?e) = hd ?d"
    by (metis hd_append2 rev_is_Nil_conv)
  moreover have "\<not> P (hd ?d)"
    using dne by (rule hd_dropWhile_not)
  ultimately have "\<not> P (hd (rev ?e))" by simp
  with False show ?thesis by (simp add: dropWhile_id)
qed

lemma strip_idem: "strip (strip s) = strip s"
proof -
  let ?e = "dropWhile is_space (rev (dropWhile is_space s))"
  have a: "dropWhile is_space (rev ?e) = rev ?e"
    by (rule dropWhile_rev_dropWhile)
  have b: "dropWhile is_space ?e = ?e"
  proof (cases "?e = []")
    case True
    then show ?thesis by simp
  next
    case False
    then show ?thesis by (metis dropWhile_id hd_dropWhile)
  qed
  show ?thesis
    by (simp add: strip_def a b)
qed

text \<open>The entries a Recent List holds: stripped and not empty.\<close>

definition entry_ok :: "str \<Rightarrow> bool" where
  "entry_ok v \<longleftrightarrow> v \<noteq> [] \<and> strip v = v"

definition recent_inv :: "recent \<Rightarrow> bool" where
  "recent_inv r \<longleftrightarrow>
     length (val r) \<le> max_length r \<and> distinct (val r) \<and> (\<forall>v \<in> set (val r). entry_ok v)"

lemma push_fields:
  "section_name (push r v) = section_name r" "base_token (push r v) = base_token r"
  "max_length (push r v) = max_length r"
  by (simp_all add: push_def Let_def)

lemma push_all_fields:
  "section_name (push_all r vs) = section_name r \<and> base_token (push_all r vs) = base_token r
   \<and> max_length (push_all r vs) = max_length r"
  by (induction vs arbitrary: r) (simp_all add: push_fields)

lemma recent_inv_init: "recent_inv (recent_init sec tok m)"
  by (simp add: recent_inv_def recent_init_def)

lemma distinct_tl_append:
  "distinct xs \<Longrightarrow> v \<notin> set xs \<Longrightarrow> distinct (tl (xs @ [v]))"
  by (cases xs) auto

lemma set_tl_append: "x \<in> set (tl (xs @ [v])) \<Longrightarrow> x \<in> set xs \<or> x = v"
  by (cases xs) auto

lemma recent_inv_push: "recent_inv r \<Longrightarrow> recent_inv (push r v)"
proof -
  assume inv: "recent_inv r"
  show ?thesis
  proof (cases "strip v = [] \<or> strip v \<in> set (val r)")
    case True
    with inv show ?thesis by (auto simp: push_def Let_def)
  next
    case False
    then have ok: "entry_ok (strip v)" by (simp add: entry_ok_def strip_idem)
    show ?thesis
    proof (cases "length (val r) + 1 > max_length r")
      case True
      with False have p: "val (push r v) = tl (val r @ [strip v])"
        by (simp add: push_def Let_def)
      from inv True have "length (val (push r v)) \<le> max_length r"
        unfolding p by (simp add: recent_inv_def)
      moreover from inv False have "distinct (val (push r v))"
        unfolding p by (simp add: recent_inv_def distinct_tl_append)
      moreover from inv ok have "\<forall>x \<in> set (val (push r v)). entry_ok x"
        unfolding p by (auto simp: recent_inv_def dest: set_tl_append)
      ultimately show ?thesis by (simp add: recent_inv_def push_fields)
    next
      case False2: False
      with False have p: "val (push r v) = val r @ [strip v]"
        by (simp add: push_def Let_def)
      from inv False False2 ok show ?thesis
        unfolding recent_inv_def p by (auto simp: push_fields)
    qed
  qed
qed

lemma recent_inv_push_all: "recent_inv r \<Longrightarrow> recent_inv (push_all r vs)"
  by (induction vs arbitrary: r) (simp_all add: recent_inv_push)

lemma push_present: "recent_inv r \<Longrightarrow> v \<in> set (val r) \<Longrightarrow> push r v = r"
  by (auto simp: recent_inv_def entry_ok_def push_def Let_def)

lemma push_blank: "\<forall>c \<in> set v. is_space c \<Longrightarrow> push r v = r"
  using strip_Nil_iff [of v] by (simp add: push_def Let_def)

text \<open>The last \<open>m\<close> elements of a list.\<close>

definition lastn :: "nat \<Rightarrow> 'a list \<Rightarrow> 'a list" where
  "lastn m xs = drop (length xs - m) xs"

lemma length_lastn: "length (lastn m xs) = min (length xs) m"
  by (simp add: lastn_def)

lemma set_lastn: "set (lastn m xs) \<subseteq> set xs"
  by (simp add: lastn_def set_drop_subset)

lemma lastn_lastn: "lastn m (lastn m xs @ ys) = lastn m (xs @ ys)"
proof -
  let ?j = "length xs - m"
  let ?k = "length (lastn m xs @ ys) - m"
  have "lastn m xs @ ys = drop ?j (xs @ ys)"
    by (simp add: lastn_def)
  then have "lastn m (lastn m xs @ ys) = drop ?k (drop ?j (xs @ ys))"
    by (simp add: lastn_def)
  also have "\<dots> = drop (?k + ?j) (xs @ ys)"
    by (simp only: drop_drop)
  also have "?k + ?j = length (xs @ ys) - m"
    unfolding length_append length_lastn by arith
  finally show ?thesis
    by (simp only: lastn_def)
qed

text \<open>
  Pushing a value that is new and not blank keeps the last \<open>max_length\<close> entries of
  the list extended by it.
\<close>

lemma push_new:
  assumes "strip v \<noteq> []" and "strip v \<notin> set (val r)" and "length (val r) \<le> max_length r"
  shows "val (push r v) = lastn (max_length r) (val r @ [strip v])"
proof (cases "length (val r) = max_length r")
  case True
  then have "lastn (max_length r) (val r @ [strip v]) = drop 1 (val r @ [strip v])"
    by (simp add: lastn_def)
  also have "\<dots> = tl (val r @ [strip v])"
    by (simp only: One_nat_def drop_Suc drop_0)
  finally show ?thesis
    using assms True by (simp add: push_def Let_def)
next
  case False
  with assms(3) have "lastn (max_length r) (val r @ [strip v]) = val r @ [strip v]"
    by (simp add: lastn_def)
  then show ?thesis
    using assms False by (simp add: push_def Let_def)
qed

lemma push_all_new:
  "distinct (map strip vs) \<Longrightarrow> [] \<notin> set (map strip vs) \<Longrightarrow>
   set (map strip vs) \<inter> set (val r) = {} \<Longrightarrow> length (val r) \<le> max_length r \<Longrightarrow>
   val (push_all r vs) = lastn (max_length r) (val r @ map strip vs)"
proof (induction vs arbitrary: r)
  case Nil
  then show ?case by (simp add: lastn_def)
next
  case (Cons v vs)
  let ?r = "push r v"
  let ?m = "max_length r"
  from Cons.prems have new: "strip v \<noteq> []" "strip v \<notin> set (val r)" by auto
  have pv: "val ?r = lastn ?m (val r @ [strip v])"
    using new Cons.prems(4) by (rule push_new)
  have len: "length (val ?r) \<le> max_length ?r"
    unfolding pv by (simp add: push_fields length_lastn)
  have sub: "set (val ?r) \<subseteq> set (val r) \<union> {strip v}"
    unfolding pv using set_lastn [of ?m "val r @ [strip v]"] by auto
  have disj: "set (map strip vs) \<inter> set (val ?r) = {}"
  proof (rule ccontr)
    assume "set (map strip vs) \<inter> set (val ?r) \<noteq> {}"
    then obtain x where x: "x \<in> set (map strip vs)" "x \<in> set (val ?r)" by blast
    with sub have "x = strip v \<or> x \<in> set (val r)" by blast
    moreover from Cons.prems(1) have "strip v \<notin> set (map strip vs)" by simp
    moreover from Cons.prems(3) have "set (map strip vs) \<inter> set (val r) = {}" by auto
    ultimately show False using x(1) by blast
  qed
  have d: "distinct (map strip vs)" and n: "[] \<notin> set (map strip vs)"
    using Cons.prems(1,2) by auto
  have "val (push_all ?r vs) = lastn (max_length ?r) (val ?r @ map strip vs)"
    using d n disj len by (rule Cons.IH)
  also have "\<dots> = lastn ?m (lastn ?m (val r @ [strip v]) @ map strip vs)"
    by (simp only: pv push_fields)
  also have "\<dots> = lastn ?m ((val r @ [strip v]) @ map strip vs)"
    by (rule lastn_lastn)
  finally show ?case by simp
qed

lemma lastn_append_long: "m \<le> length ys \<Longrightarrow> lastn m (xs @ ys) = drop (length ys - m) ys"
  by (simp add: lastn_def)

text \<open>
  C1. For a Recent List built by pushes from the empty list: pushing a value that is
  already an entry leaves the object unchanged; pushing a string of whitespace only
  leaves it unchanged; the list never holds more than \<open>max_length\<close> entries and never
  holds a duplicate; and pushing values that are new, distinct after stripping and not
  blank leaves the last \<open>max_length\<close> of the old entries followed by the new ones, so,
  when more than \<open>max_length\<close> values are pushed, exactly the \<open>max_length\<close> values pushed
  last, in push order: the oldest are evicted first.
\<close>

theorem recent_push_invariants:
  fixes sec tok :: str and m :: nat and vs ws :: "str list" and v w :: str
  defines "r \<equiv> push_all (recent_init sec tok m) vs"
  shows "(v \<in> set (val r) \<longrightarrow> push r v = r)
       \<and> ((\<forall>c \<in> set w. is_space c) \<longrightarrow> push r w = r)
       \<and> length (val r) \<le> m \<and> distinct (val r)
       \<and> (distinct (map strip ws) \<and> [] \<notin> set (map strip ws)
            \<and> set (map strip ws) \<inter> set (val r) = {} \<longrightarrow>
            val (push_all r ws)
              = drop (length (val r) + length ws - m) (val r @ map strip ws)
          \<and> (m < length ws \<longrightarrow>
                val (push_all r ws) = drop (length ws - m) (map strip ws)
              \<and> length (val (push_all r ws)) = m))"
proof -
  have inv: "recent_inv r"
    unfolding r_def by (rule recent_inv_push_all [OF recent_inv_init])
  have m: "max_length r = m"
    unfolding r_def by (simp add: push_all_fields recent_init_def)
  have a: "v \<in> set (val r) \<longrightarrow> push r v = r"
    using inv by (simp add: push_present)
  have b: "(\<forall>c \<in> set w. is_space c) \<longrightarrow> push r w = r"
    by (simp add: push_blank)
  have c: "length (val r) \<le> m \<and> distinct (val r)"
    using inv m by (simp add: recent_inv_def)
  have d: "distinct (map strip ws) \<and> [] \<notin> set (map strip ws)
            \<and> set (map strip ws) \<inter> set (val r) = {} \<longrightarrow>
            val (push_all r ws)
              = drop (length (val r) + length ws - m) (val r @ map strip ws)
          \<and> (m < length ws \<longrightarrow>
                val (push_all r ws) = drop (length ws - m) (map strip ws)
              \<and> length (val (push_all r ws)) = m)"
  proof
    assume h: "distinct (map strip ws) \<and> [] \<notin> set (map strip ws)
            \<and> set (map strip ws) \<inter> set (val r) = {}"
    have len: "length (val r) \<le> max_length r" using c m by simp
    have e: "val (push_all r ws) = lastn m (val r @ map strip ws)"
      using push_all_new [of ws r] h len m by simp
    have f: "m < length ws \<longrightarrow> lastn m (val r @ map strip ws) = drop (length ws - m) (map strip ws)"
      using lastn_append_long [of m "map strip ws" "val r"] by simp
    show "val (push_all r ws)
              = drop (length (val r) + length ws - m) (val r @ map strip ws)
          \<and> (m < length ws \<longrightarrow>
                val (push_all r ws) = drop (length ws - m) (map strip ws)
              \<and> length (val (push_all r ws)) = m)"
      using e f by (auto simp: lastn_def)
  qed
  from a b c d show ?thesis by blast
qed

theorem recent_push_invariants_witness:
  "lit ''a'' \<in> set (val (push_all (recent_init (lit ''recent'') (lit ''documents'') 3) [lit ''a'', lit '' b '']))
   \<and> push (push_all (recent_init (lit ''recent'') (lit ''documents'') 3) [lit ''a'', lit '' b '']) (lit ''a'')
      = push_all (recent_init (lit ''recent'') (lit ''documents'') 3) [lit ''a'', lit '' b '']
   \<and> list_all is_space (lit ''  '')
   \<and> push (push_all (recent_init (lit ''recent'') (lit ''documents'') 3) [lit ''a'', lit '' b '']) (lit ''  '')
      = push_all (recent_init (lit ''recent'') (lit ''documents'') 3) [lit ''a'', lit '' b '']
   \<and> val (push_all (recent_init (lit ''recent'') (lit ''documents'') 3) [lit ''a'', lit '' b ''])
      = [lit ''a'', lit ''b'']
   \<and> distinct (map strip [lit ''c'', lit '' d'', lit ''e'', lit ''f''])
   \<and> [] \<notin> set (map strip [lit ''c'', lit '' d'', lit ''e'', lit ''f''])
   \<and> set (map strip [lit ''c'', lit '' d'', lit ''e'', lit ''f'']) \<inter> set [lit ''a'', lit ''b''] = {}
   \<and> 3 < length [lit ''c'', lit '' d'', lit ''e'', lit ''f'']
   \<and> val (push_all
             (push_all (recent_init (lit ''recent'') (lit ''documents'') 3) [lit ''a'', lit '' b ''])
             [lit ''c'', lit '' d'', lit ''e'', lit ''f''])
      = [lit ''d'', lit ''e'', lit ''f'']"
proof -
  let ?r = "push_all (recent_init (lit ''recent'') (lit ''documents'') 3) [lit ''a'', lit '' b '']"
  let ?ws = "[lit ''c'', lit '' d'', lit ''e'', lit ''f'']"
  have v: "val ?r = [lit ''a'', lit ''b'']"
    by (simp add: lit_simps push_def recent_init_def strip_def is_space_def Let_def)
  have h1: "lit ''a'' \<in> set (val ?r)"
    unfolding v by simp
  have h2: "\<forall>c \<in> set (lit ''  ''). is_space c"
    by (simp add: lit_simps is_space_def)
  have h3: "distinct (map strip ?ws)" "[] \<notin> set (map strip ?ws)"
    "set (map strip ?ws) \<inter> set [lit ''a'', lit ''b''] = {}"
    by (simp_all add: lit_simps strip_def is_space_def)
  have e: "drop (length ?ws - 3) (map strip ?ws) = [lit ''d'', lit ''e'', lit ''f'']"
    by (simp add: lit_simps strip_def is_space_def)
  note t = recent_push_invariants
    [of "lit ''a''" "lit ''recent''" "lit ''documents''" 3 "[lit ''a'', lit '' b '']"
        "lit ''  ''" ?ws]
  have r1: "push ?r (lit ''a'') = ?r" using t h1 by blast
  have r2: "push ?r (lit ''  '') = ?r" using t h2 by blast
  have "val (push_all ?r ?ws) = drop (length ?ws - 3) (map strip ?ws)"
    using t h3 unfolding v by simp
  then have r3: "val (push_all ?r ?ws) = [lit ''d'', lit ''e'', lit ''f'']"
    unfolding e .
  from h1 r1 h2 r2 v h3 r3 show ?thesis
    by (simp add: list_all_iff)
qed

section \<open>Integers written to the store and read back\<close>

lemma ebind_simps [simp]: "ebind (Inl e) f = Inl e" "ebind (Inr x) f = f x"
  by (simp_all add: ebind_def)

lemma try_except_simps [simp]:
  "try_except (Inr x) c h = Inr x"
  "try_except (Inl e) c h = (if c e then h e else Inl e)"
  by (simp_all add: try_except_def)

lemma cfg_get_set:
  "cfg_get (cfg_set config sec key v) sec' key'
     = (if (sec, key) = (sec', key') then Inr v else cfg_get config sec' key')"
  by (simp add: cfg_get_def cfg_set_def update_conv')

lemma py_int_error: "py_int s = Inl e \<Longrightarrow> e = ValueError"
  by (auto simp: py_int_def Let_def split: list.splits if_splits option.splits)

lemma strip_both_id:
  "xs \<noteq> [] \<Longrightarrow> \<not> P (hd xs) \<Longrightarrow> \<not> P (last xs) \<Longrightarrow>
   rev (dropWhile P (rev (dropWhile P xs))) = xs"
  by (simp add: dropWhile_id hd_rev)

lemma int_digits_all:
  "\<forall>c \<in> set xs. is_digit c \<Longrightarrow>
   int_digits acc xs = Some (foldl (\<lambda>a c. 10 * a + (c - 48)) acc xs)"
  by (induction xs arbitrary: acc) simp_all

lemma str_nat_digits: "\<forall>c \<in> set (str_nat n). is_digit c"
proof (induction n rule: str_nat.induct)
  case (1 n)
  show ?case
  proof (cases "n < 10")
    case True
    then show ?thesis by (subst str_nat.simps) (simp add: is_digit_def)
  next
    case False
    have "n mod 10 < 10" by simp
    then have "is_digit (48 + n mod 10)" unfolding is_digit_def by linarith
    with False 1 show ?thesis by (subst str_nat.simps) simp
  qed
qed

lemma str_nat_ne: "str_nat n \<noteq> []"
  by (subst str_nat.simps) simp

lemma str_nat_val: "foldl (\<lambda>a c. 10 * a + (c - 48)) 0 (str_nat n) = n"
proof (induction n rule: str_nat.induct)
  case (1 n)
  show ?case
  proof (cases "n < 10")
    case True
    then show ?thesis by (subst str_nat.simps) simp
  next
    case False
    with 1 show ?thesis by (subst str_nat.simps) simp
  qed
qed

lemma digit_not_space: "is_digit c \<Longrightarrow> \<not> int_space c"
  by (auto simp: is_digit_def int_space_def is_space_def)

lemma py_int_digits:
  assumes "xs \<noteq> []" and "\<forall>c \<in> set xs. is_digit c"
  shows "py_int xs = Inr (int (foldl (\<lambda>a c. 10 * a + (c - 48)) 0 xs))"
    and "py_int (45 # xs) = Inr (- int (foldl (\<lambda>a c. 10 * a + (c - 48)) 0 xs))"
proof -
  obtain d ds where xs: "xs = d # ds" using assms(1) by (cases xs) auto
  have d: "is_digit d" and ds: "\<forall>c \<in> set ds. is_digit c" using assms(2) xs by auto
  have hl: "\<not> int_space (hd xs)" "\<not> int_space (last xs)"
    using assms by (simp_all add: digit_not_space)
  have s1: "rev (dropWhile int_space (rev (dropWhile int_space xs))) = xs"
    using assms(1) hl by (rule strip_both_id)
  have "\<not> int_space 45" by (simp add: int_space_def is_space_def)
  then have s2: "rev (dropWhile int_space (rev (dropWhile int_space (45 # xs)))) = 45 # xs"
    using hl(2) assms(1) by (intro strip_both_id) simp_all
  have nd: "d \<noteq> 45" "d \<noteq> 43" using d by (auto simp: is_digit_def)
  show "py_int xs = Inr (int (foldl (\<lambda>a c. 10 * a + (c - 48)) 0 xs))"
    unfolding py_int_def s1 using d nd by (simp add: xs int_digits_all [OF ds])
  show "py_int (45 # xs) = Inr (- int (foldl (\<lambda>a c. 10 * a + (c - 48)) 0 xs))"
    unfolding py_int_def s2 using d by (simp add: xs int_digits_all [OF ds])
qed

lemma py_int_py_str: "py_int (py_str i) = Inr i"
  using py_int_digits [OF str_nat_ne str_nat_digits]
  by (simp add: py_str_def str_nat_val)

lemma size_keys_distinct: "tok @ lit ''_w'' \<noteq> tok @ lit ''_h''"
  by (simp add: lit_simps)

lemmas py_eval = py_int_def int_space_def is_space_def is_digit_def lit_simps Let_def

section \<open>Size Pair: writing and loading\<close>

text \<open>
  C7. Writing a Size Pair and loading it from the same store, into an object of the same
  section, token and minimum whatever it held before, gives each dimension raised to its
  minimum independently: the pair itself when both dimensions are at least the minimum.
\<close>

theorem size_update_load_roundtrip:
  "size_load (size_update config s) (s\<lparr>size_val := v0\<rparr>)
     = Inr (s\<lparr>size_val := (max (fst (size_val s)) (fst (min_size s)),
                          max (snd (size_val s)) (snd (min_size s)))\<rparr>)
   \<and> (fst (min_size s) \<le> fst (size_val s) \<and> snd (min_size s) \<le> snd (size_val s) \<longrightarrow>
        size_load (size_update config s) (s\<lparr>size_val := v0\<rparr>) = Inr s)"
proof -
  have a: "size_load (size_update config s) (s\<lparr>size_val := v0\<rparr>)
     = Inr (s\<lparr>size_val := (max (fst (size_val s)) (fst (min_size s)),
                          max (snd (size_val s)) (snd (min_size s)))\<rparr>)"
    by (simp add: size_load_def size_update_def Let_def cfg_get_set lit_simps
        py_int_py_str max_def)
  have b: "fst (min_size s) \<le> fst (size_val s) \<and> snd (min_size s) \<le> snd (size_val s) \<longrightarrow>
        s\<lparr>size_val := (max (fst (size_val s)) (fst (min_size s)),
                       max (snd (size_val s)) (snd (min_size s)))\<rparr> = s"
    by (simp add: max_def)
  from a b show ?thesis by simp
qed

theorem size_update_load_roundtrip_witness:
  "fst (min_size (size_init (lit ''GUI'') (lit ''main_win_size'') (1280, 800) (400, 300)))
     \<le> fst (size_val (size_init (lit ''GUI'') (lit ''main_win_size'') (1280, 800) (400, 300)))
   \<and> snd (min_size (size_init (lit ''GUI'') (lit ''main_win_size'') (1280, 800) (400, 300)))
     \<le> snd (size_val (size_init (lit ''GUI'') (lit ''main_win_size'') (1280, 800) (400, 300)))
   \<and> size_load
        (size_update [] (size_init (lit ''GUI'') (lit ''main_win_size'') (1280, 800) (400, 300)))
        ((size_init (lit ''GUI'') (lit ''main_win_size'') (1280, 800) (400, 300))
           \<lparr>size_val := (0, 0)\<rparr>)
      = Inr (size_init (lit ''GUI'') (lit ''main_win_size'') (1280, 800) (400, 300))"
  using size_update_load_roundtrip
    [of "[]" "size_init (lit ''GUI'') (lit ''main_win_size'') (1280, 800) (400, 300)" "(0, 0)"]
  by (simp add: size_init_def)

section \<open>Calibration Record: loading\<close>

lemma cfg_get_error: "cfg_get config sec key = Inl e \<Longrightarrow> e = NoOptionError"
  by (simp add: cfg_get_def split: option.splits)

lemma calibration_load_coords:
  assumes "cfg_get config (lit ''Scanner'') (lit ''Calibration_Pt_A_X'') = Inr sax"
    and "py_int sax = Inr a_x"
    and "cfg_get config (lit ''Scanner'') (lit ''Calibration_Pt_A_Y'') = Inr say"
    and "py_int say = Inr a_y"
    and "cfg_get config (lit ''Scanner'') (lit ''Calibration_Pt_B_X'') = Inr sbx"
    and "py_int sbx = Inr b_x"
    and "cfg_get config (lit ''Scanner'') (lit ''Calibration_Pt_B_Y'') = Inr sby"
    and "py_int sby = Inr b_y"
  shows "calibration_load config c =
     (case cfg_get config (lit ''Scanner'') (lit ''Calibration_Resolution'') of
        Inl e \<Rightarrow>
          Inr (c\<lparr>cal_val := Some (DEFAULT_CALIBRATION_RESOLUTION,
                 ((min a_x b_x, min a_y b_y), (max a_x b_x, max a_y b_y)))\<rparr>)
      | Inr sr \<Rightarrow>
          (case py_int sr of
             Inl e \<Rightarrow> Inl ValueError
           | Inr r \<Rightarrow>
               Inr (c\<lparr>cal_val := Some (r, ((min a_x b_x, min a_y b_y), (max a_x b_x, max a_y b_y)))\<rparr>)))"
proof (cases "cfg_get config (lit ''Scanner'') (lit ''Calibration_Resolution'')")
  case (Inl e)
  then have "e = NoOptionError" by (rule cfg_get_error)
  with Inl assms show ?thesis
    by (simp add: calibration_load_def min_def max_def)
next
  case (Inr sr)
  show ?thesis
  proof (cases "py_int sr")
    case (Inl e)
    then have "e = ValueError" by (rule py_int_error)
    with Inl Inr assms show ?thesis
      by (simp add: calibration_load_def min_def max_def)
  next
    case r: (Inr r)
    with Inr assms show ?thesis
      by (simp add: calibration_load_def min_def max_def)
  qed
qed

text \<open>
  C2. When the four coordinate entries are present and \<open>int\<close> reads them, every record
  that \<open>load\<close> stores has point A at the minimum and point B at the maximum of each axis,
  so \<open>A.x \<le> B.x\<close> and \<open>A.y \<le> B.y\<close>, each axis swapped on its own. \<open>load\<close> stores
  such a record whenever the resolution entry is absent (200 is assumed) or \<open>int\<close> reads
  it; it raises, a \<open>ValueError\<close>, only when the resolution entry is present and is not an
  integer.
\<close>

theorem calibration_load_normalized:
  assumes "cfg_get config (lit ''Scanner'') (lit ''Calibration_Pt_A_X'') = Inr sax"
    and "py_int sax = Inr a_x"
    and "cfg_get config (lit ''Scanner'') (lit ''Calibration_Pt_A_Y'') = Inr say"
    and "py_int say = Inr a_y"
    and "cfg_get config (lit ''Scanner'') (lit ''Calibration_Pt_B_X'') = Inr sbx"
    and "py_int sbx = Inr b_x"
    and "cfg_get config (lit ''Scanner'') (lit ''Calibration_Pt_B_Y'') = Inr sby"
    and "py_int sby = Inr b_y"
  shows "(\<forall>c'. calibration_load config c = Inr c' \<longrightarrow>
            (\<exists>r pax pay pbx pby.
               c' = c\<lparr>cal_val := Some (r, ((pax, pay), (pbx, pby)))\<rparr>
               \<and> pax \<le> pbx \<and> pay \<le> pby
               \<and> pax = min a_x b_x \<and> pbx = max a_x b_x \<and> pay = min a_y b_y \<and> pby = max a_y b_y))
       \<and> (cfg_get config (lit ''Scanner'') (lit ''Calibration_Resolution'') = Inl NoOptionError \<longrightarrow>
            calibration_load config c =
              Inr (c\<lparr>cal_val := Some (200, ((min a_x b_x, min a_y b_y), (max a_x b_x, max a_y b_y)))\<rparr>))
       \<and> (\<forall>sr r. cfg_get config (lit ''Scanner'') (lit ''Calibration_Resolution'') = Inr sr
              \<and> py_int sr = Inr r \<longrightarrow>
            calibration_load config c =
              Inr (c\<lparr>cal_val := Some (r, ((min a_x b_x, min a_y b_y), (max a_x b_x, max a_y b_y)))\<rparr>))
       \<and> (\<forall>e. calibration_load config c = Inl e \<longrightarrow>
            e = ValueError
            \<and> (\<exists>sr. cfg_get config (lit ''Scanner'') (lit ''Calibration_Resolution'') = Inr sr
                   \<and> py_int sr = Inl ValueError))"
proof -
  note eq = calibration_load_coords [OF assms, of c]
  have a: "\<forall>c'. calibration_load config c = Inr c' \<longrightarrow>
            (\<exists>r pax pay pbx pby.
               c' = c\<lparr>cal_val := Some (r, ((pax, pay), (pbx, pby)))\<rparr>
               \<and> pax \<le> pbx \<and> pay \<le> pby
               \<and> pax = min a_x b_x \<and> pbx = max a_x b_x \<and> pay = min a_y b_y \<and> pby = max a_y b_y)"
    unfolding eq by (auto split: sum.splits)
  have b: "cfg_get config (lit ''Scanner'') (lit ''Calibration_Resolution'') = Inl NoOptionError \<longrightarrow>
            calibration_load config c =
              Inr (c\<lparr>cal_val := Some (200, ((min a_x b_x, min a_y b_y), (max a_x b_x, max a_y b_y)))\<rparr>)"
    unfolding eq by (simp add: DEFAULT_CALIBRATION_RESOLUTION_def)
  have c: "\<forall>sr r. cfg_get config (lit ''Scanner'') (lit ''Calibration_Resolution'') = Inr sr
              \<and> py_int sr = Inr r \<longrightarrow>
            calibration_load config c =
              Inr (c\<lparr>cal_val := Some (r, ((min a_x b_x, min a_y b_y), (max a_x b_x, max a_y b_y)))\<rparr>)"
    unfolding eq by simp
  have d: "\<forall>e. calibration_load config c = Inl e \<longrightarrow>
            e = ValueError
            \<and> (\<exists>sr. cfg_get config (lit ''Scanner'') (lit ''Calibration_Resolution'') = Inr sr
                   \<and> py_int sr = Inl ValueError)"
    unfolding eq by (auto split: sum.splits dest: py_int_error)
  from a b c d show ?thesis by blast
qed

text \<open>A store whose two points are given in the wrong order on the x axis only.\<close>

definition example_calibration_store :: store where
  "example_calibration_store =
     [((lit ''Scanner'', lit ''Calibration_Pt_A_X''), lit ''50''),
      ((lit ''Scanner'', lit ''Calibration_Pt_A_Y''), lit ''20''),
      ((lit ''Scanner'', lit ''Calibration_Pt_B_X''), lit ''10''),
      ((lit ''Scanner'', lit ''Calibration_Pt_B_Y''), lit ''60'')]"

theorem calibration_load_normalized_witness:
  "cfg_get example_calibration_store (lit ''Scanner'') (lit ''Calibration_Pt_A_X'') = Inr (lit ''50'')
   \<and> py_int (lit ''50'') = Inr 50
   \<and> cfg_get example_calibration_store (lit ''Scanner'') (lit ''Calibration_Pt_A_Y'') = Inr (lit ''20'')
   \<and> py_int (lit ''20'') = Inr 20
   \<and> cfg_get example_calibration_store (lit ''Scanner'') (lit ''Calibration_Pt_B_X'') = Inr (lit ''10'')
   \<and> py_int (lit ''10'') = Inr 10
   \<and> cfg_get example_calibration_store (lit ''Scanner'') (lit ''Calibration_Pt_B_Y'') = Inr (lit ''60'')
   \<and> py_int (lit ''60'') = Inr 60
   \<and> cfg_get example_calibration_store (lit ''Scanner'') (lit ''Calibration_Resolution'') = Inl NoOptionError
   \<and> calibration_load example_calibration_store (calibration_init (lit ''Scanner''))
      = Inr ((calibration_init (lit ''Scanner''))\<lparr>cal_val := Some (200, ((10, 20), (50, 60)))\<rparr>)"
proof -
  have g: "cfg_get example_calibration_store (lit ''Scanner'') (lit ''Calibration_Pt_A_X'') = Inr (lit ''50'')"
    "cfg_get example_calibration_store (lit ''Scanner'') (lit ''Calibration_Pt_A_Y'') = Inr (lit ''20'')"
    "cfg_get example_calibration_store (lit ''Scanner'') (lit ''Calibration_Pt_B_X'') = Inr (lit ''10'')"
    "cfg_get example_calibration_store (lit ''Scanner'') (lit ''Calibration_Pt_B_Y'') = Inr (lit ''60'')"
    and r: "cfg_get example_calibration_store (lit ''Scanner'') (lit ''Calibration_Resolution'') = Inl NoOptionError"
    by (simp_all add: cfg_get_def example_calibration_store_def lit_simps)
  have p: "py_int (lit ''50'') = Inr 50" "py_int (lit ''20'') = Inr 20"
    "py_int (lit ''10'') = Inr 10" "py_int (lit ''60'') = Inr 60"
    by (simp_all add: py_eval)
  show ?thesis
    using calibration_load_normalized
      [OF g(1) p(1) g(2) p(2) g(3) p(3) g(4) p(4), of "calibration_init (lit ''Scanner'')"]
      g p r
    by simp
qed

section \<open>Absent and unparsable entries\<close>

lemma size_load_cases:
  "size_load config s =
     (case cfg_get config (size_section s) (size_base_token s @ lit ''_w'') of
        Inl e \<Rightarrow> Inr (s\<lparr>size_val := default_size s\<rparr>)
      | Inr sw \<Rightarrow>
          (case py_int sw of
             Inl e \<Rightarrow> Inl ValueError
           | Inr w \<Rightarrow>
               (case cfg_get config (size_section s) (size_base_token s @ lit ''_h'') of
                  Inl e \<Rightarrow> Inr (s\<lparr>size_val := default_size s\<rparr>)
                | Inr sh \<Rightarrow>
                    (case py_int sh of
                       Inl e \<Rightarrow> Inl ValueError
                     | Inr h \<Rightarrow>
                         Inr (s\<lparr>size_val := (max w (fst (min_size s)),
                                               max h (snd (min_size s)))\<rparr>)))))"
  by (auto simp: size_load_def Let_def max_def split: sum.splits
      dest!: cfg_get_error py_int_error)

text \<open>One phase of the Scan-Time Table.\<close>

lemma load_item_absent:
  "cfg_get config sec key = Inl e \<Longrightarrow>
   scan_times_load_item float_of config (k, sec, key) vals = Inr (AList.delete k vals)"
proof -
  assume a: "cfg_get config sec key = Inl e"
  then have "e = NoOptionError" by (rule cfg_get_error)
  moreover have "map_of vals k = None \<Longrightarrow> AList.delete k vals = vals"
    by (simp add: delete_id map_of_eq_None_iff)
  ultimately show ?thesis
    using a by (auto simp: scan_times_load_item_def)
qed

lemma load_item_present:
  "cfg_get config sec key = Inr raw \<Longrightarrow> float_of raw = Inr x \<Longrightarrow>
   scan_times_load_item float_of config (k, sec, key) vals = Inr (AList.update k x vals)"
  by (simp add: scan_times_load_item_def)

lemma load_item_unparsable:
  "cfg_get config sec key = Inr raw \<Longrightarrow> float_of raw = Inl ValueError \<Longrightarrow>
   scan_times_load_item float_of config (k, sec, key) vals = Inl ValueError"
  by (simp add: scan_times_load_item_def)

lemma load_item_error:
  "\<forall>raw e. float_of raw = Inl e \<longrightarrow> e = ValueError \<Longrightarrow>
   scan_times_load_item float_of config item vals = Inl e \<Longrightarrow> e = ValueError"
  by (cases item)
     (auto simp: scan_times_load_item_def ebind_def try_except_def
       split: sum.splits if_splits dest: cfg_get_error)

text \<open>What the table holds for a phase once its entry has been read without error.\<close>

definition phase_value :: "(str \<Rightarrow> error + 'f) \<Rightarrow> store \<Rightarrow> str \<times> str \<times> str \<Rightarrow> 'f option" where
  "phase_value float_of config item =
     (case cfg_get config (fst (snd item)) (snd (snd item)) of
        Inl e \<Rightarrow> None
      | Inr raw \<Rightarrow> (case float_of raw of Inl e \<Rightarrow> None | Inr x \<Rightarrow> Some x))"

definition phase_readable :: "(str \<Rightarrow> error + 'f) \<Rightarrow> store \<Rightarrow> str \<times> str \<times> str \<Rightarrow> bool" where
  "phase_readable float_of config item =
     (case cfg_get config (fst (snd item)) (snd (snd item)) of
        Inl e \<Rightarrow> True
      | Inr raw \<Rightarrow> \<not> isl (float_of raw))"

lemma load_item_readable:
  assumes "phase_readable float_of config item"
  shows "\<exists>values'. scan_times_load_item float_of config item vals = Inr values'
           \<and> map_of values' (fst item) = phase_value float_of config item
           \<and> (\<forall>k'. k' \<noteq> fst item \<longrightarrow> map_of values' k' = map_of vals k')"
proof -
  obtain k sec key where item: "item = (k, sec, key)" by (cases item) auto
  show ?thesis
  proof (cases "cfg_get config sec key")
    case (Inl e)
    then show ?thesis
      unfolding item using load_item_absent [OF Inl, of float_of k vals]
      by (simp add: phase_value_def delete_conv')
  next
    case (Inr raw)
    with assms obtain x where x: "float_of raw = Inr x"
      unfolding item phase_readable_def by (cases "float_of raw") auto
    show ?thesis
      unfolding item
      using load_item_present [where float_of = float_of and k = k and vals = vals, OF Inr x] Inr x
      by (simp add: phase_value_def update_conv')
  qed
qed

lemma load_items_readable:
  "list_all (phase_readable float_of config) items \<Longrightarrow> distinct (map fst items) \<Longrightarrow>
   fst (scan_times_load_items float_of config items vals) = None
   \<and> (\<forall>item \<in> set items.
        map_of (snd (scan_times_load_items float_of config items vals)) (fst item)
          = phase_value float_of config item)
   \<and> (\<forall>k'. k' \<notin> fst ` set items \<longrightarrow>
        map_of (snd (scan_times_load_items float_of config items vals)) k' = map_of vals k')"
proof (induction items arbitrary: vals)
  case Nil
  then show ?case by simp
next
  case (Cons item items)
  from Cons.prems have r: "phase_readable float_of config item" by simp
  obtain values' where
    v: "scan_times_load_item float_of config item vals = Inr values'"
    and v1: "map_of values' (fst item) = phase_value float_of config item"
    and v2: "\<forall>k'. k' \<noteq> fst item \<longrightarrow> map_of values' k' = map_of vals k'"
    using load_item_readable [OF r, of vals] by blast
  from Cons.prems have "list_all (phase_readable float_of config) items" "distinct (map fst items)"
    by simp_all
  note ih = Cons.IH [OF this, of values']
  have nin: "fst item \<notin> fst ` set items" using Cons.prems(2) by simp
  have e: "scan_times_load_items float_of config (item # items) vals
           = scan_times_load_items float_of config items values'"
    using v by simp
  show ?case
    unfolding e using ih v1 v2 nin by auto
qed

lemma load_items_unparsable:
  "(k, sec, key) \<in> set items \<Longrightarrow> cfg_get config sec key = Inr raw \<Longrightarrow>
   float_of raw = Inl ValueError \<Longrightarrow> \<forall>raw e. float_of raw = Inl e \<longrightarrow> e = ValueError \<Longrightarrow>
   fst (scan_times_load_items float_of config items vals) = Some ValueError"
proof (induction items arbitrary: vals)
  case Nil
  then show ?case by simp
next
  case (Cons item items)
  show ?case
  proof (cases "scan_times_load_item float_of config item vals")
    case (Inl e)
    with Cons.prems(4) have "e = ValueError" by (auto dest: load_item_error)
    with Inl show ?thesis by simp
  next
    case (Inr values')
    have "item \<noteq> (k, sec, key)"
      using Inr
        load_item_unparsable [where float_of = float_of and k = k and vals = vals,
          OF Cons.prems(2,3)]
      by auto
    with Cons.prems(1) have "(k, sec, key) \<in> set items" by auto
    from Cons.IH [OF this Cons.prems(2,3,4)] Inr show ?thesis by simp
  qed
qed


lemma scan_times_load_proj:
  "fst (scan_times_load float_of config t)
     = fst (scan_times_load_items float_of config ITEM_2_CONFIG (st_values t))"
  "st_values (snd (scan_times_load float_of config t))
     = snd (scan_times_load_items float_of config ITEM_2_CONFIG (st_values t))"
  by (simp_all add: scan_times_load_def split_beta)

lemma ITEM_2_CONFIG_distinct: "distinct (map fst ITEM_2_CONFIG)"
  by (simp add: ITEM_2_CONFIG_def lit_simps)

text \<open>
  C4, as the code has it. \<open>load\<close> of the Size Pair and of the Scan-Time Table catches the
  two missing-entry exceptions only. An absent entry is defaulted locally and nothing is
  raised: the Size Pair takes its default pair as soon as the width entry, or the height
  entry after a readable width, is absent; the Scan-Time Table, when every entry is
  absent or a number, drops the cached value of each absent phase and stores the others.
  An entry that is present and not a number is not recovered: the \<open>ValueError\<close> of the
  conversion reaches the caller.
\<close>

theorem load_absent_defaults_unparsable_raises:
  fixes float_of :: "str \<Rightarrow> error + 'f" and s :: size_pair and t :: "'f scan_times"
  assumes "\<forall>raw e. float_of raw = Inl e \<longrightarrow> e = ValueError"
  shows "((cfg_get config (size_section s) (size_base_token s @ lit ''_w'') = Inl NoOptionError
           \<or> (\<exists>sw w. cfg_get config (size_section s) (size_base_token s @ lit ''_w'') = Inr sw
                 \<and> py_int sw = Inr w
                 \<and> cfg_get config (size_section s) (size_base_token s @ lit ''_h'')
                     = Inl NoOptionError))
          \<longrightarrow> size_load config s = Inr (s\<lparr>size_val := default_size s\<rparr>))
       \<and> (((\<exists>sw. cfg_get config (size_section s) (size_base_token s @ lit ''_w'') = Inr sw
                 \<and> py_int sw = Inl ValueError)
           \<or> (\<exists>sw w sh. cfg_get config (size_section s) (size_base_token s @ lit ''_w'') = Inr sw
                 \<and> py_int sw = Inr w
                 \<and> cfg_get config (size_section s) (size_base_token s @ lit ''_h'') = Inr sh
                 \<and> py_int sh = Inl ValueError))
          \<longrightarrow> size_load config s = Inl ValueError)
       \<and> (list_all (phase_readable float_of config) ITEM_2_CONFIG \<longrightarrow>
            fst (scan_times_load float_of config t) = None
            \<and> (\<forall>item \<in> set ITEM_2_CONFIG.
                  map_of (st_values (snd (scan_times_load float_of config t))) (fst item)
                    = phase_value float_of config item))
       \<and> (\<forall>k sec key raw.
             (k, sec, key) \<in> set ITEM_2_CONFIG \<and> cfg_get config sec key = Inr raw
             \<and> float_of raw = Inl ValueError
             \<longrightarrow> fst (scan_times_load float_of config t) = Some ValueError)"
proof -
  have a: "(cfg_get config (size_section s) (size_base_token s @ lit ''_w'') = Inl NoOptionError
           \<or> (\<exists>sw w. cfg_get config (size_section s) (size_base_token s @ lit ''_w'') = Inr sw
                 \<and> py_int sw = Inr w
                 \<and> cfg_get config (size_section s) (size_base_token s @ lit ''_h'')
                     = Inl NoOptionError))
          \<longrightarrow> size_load config s = Inr (s\<lparr>size_val := default_size s\<rparr>)"
    by (subst size_load_cases) auto
  have b: "((\<exists>sw. cfg_get config (size_section s) (size_base_token s @ lit ''_w'') = Inr sw
                 \<and> py_int sw = Inl ValueError)
           \<or> (\<exists>sw w sh. cfg_get config (size_section s) (size_base_token s @ lit ''_w'') = Inr sw
                 \<and> py_int sw = Inr w
                 \<and> cfg_get config (size_section s) (size_base_token s @ lit ''_h'') = Inr sh
                 \<and> py_int sh = Inl ValueError))
          \<longrightarrow> size_load config s = Inl ValueError"
    by (subst size_load_cases) auto
  have c: "list_all (phase_readable float_of config) ITEM_2_CONFIG \<longrightarrow>
            fst (scan_times_load float_of config t) = None
            \<and> (\<forall>item \<in> set ITEM_2_CONFIG.
                  map_of (st_values (snd (scan_times_load float_of config t))) (fst item)
                    = phase_value float_of config item)"
  proof
    assume r: "list_all (phase_readable float_of config) ITEM_2_CONFIG"
    from load_items_readable [OF r ITEM_2_CONFIG_distinct, of "st_values t"]
    show "fst (scan_times_load float_of config t) = None
            \<and> (\<forall>item \<in> set ITEM_2_CONFIG.
                  map_of (st_values (snd (scan_times_load float_of config t))) (fst item)
                    = phase_value float_of config item)"
      unfolding scan_times_load_proj by blast
  qed
  have d: "\<forall>k sec key raw.
             (k, sec, key) \<in> set ITEM_2_CONFIG \<and> cfg_get config sec key = Inr raw
             \<and> float_of raw = Inl ValueError
             \<longrightarrow> fst (scan_times_load float_of config t) = Some ValueError"
  proof (intro allI impI)
    fix k sec key raw
    assume h: "(k, sec, key) \<in> set ITEM_2_CONFIG \<and> cfg_get config sec key = Inr raw
             \<and> float_of raw = Inl ValueError"
    then have "fst (scan_times_load_items float_of config ITEM_2_CONFIG (st_values t))
               = Some ValueError"
      using assms
        load_items_unparsable [where float_of = float_of and items = ITEM_2_CONFIG
          and vals = "st_values t" and k = k and sec = sec and key = key and raw = raw
          and config = config]
      by blast
    then show "fst (scan_times_load float_of config t) = Some ValueError"
      by (simp only: scan_times_load_proj)
  qed
  from a b c d show ?thesis by blast
qed

text \<open>
  Instances: an empty store; a store with a non-numeric width; a table with a cached
  duration for the phase \<open>normal\<close> loaded from a store that has the calibration time
  only; a store with a non-numeric scan time. The durations are whole numbers here, which
  \<open>float\<close> reads as \<open>int\<close> does.
\<close>

theorem load_absent_defaults_unparsable_raises_witness:
  "cfg_get [] (lit ''GUI'') (lit ''main_win_size'' @ lit ''_w'') = Inl NoOptionError
   \<and> size_load [] ((size_init (lit ''GUI'') (lit ''main_win_size'') (1024, 768) (400, 300))
                     \<lparr>size_val := (1280, 800)\<rparr>)
      = Inr (size_init (lit ''GUI'') (lit ''main_win_size'') (1024, 768) (400, 300))
   \<and> cfg_get [((lit ''GUI'', lit ''main_win_size_w''), lit ''abc'')]
        (lit ''GUI'') (lit ''main_win_size'' @ lit ''_w'') = Inr (lit ''abc'')
   \<and> py_int (lit ''abc'') = Inl ValueError
   \<and> size_load [((lit ''GUI'', lit ''main_win_size_w''), lit ''abc'')]
        (size_init (lit ''GUI'') (lit ''main_win_size'') (1024, 768) (400, 300))
      = Inl ValueError
   \<and> list_all (phase_readable py_int [((lit ''Scanner'', lit ''ScanTimeCalibration''), lit ''12'')])
        ITEM_2_CONFIG
   \<and> fst (scan_times_load py_int [((lit ''Scanner'', lit ''ScanTimeCalibration''), lit ''12'')]
             (scan_times_init\<lparr>st_values := [(lit ''normal'', 7)]\<rparr>)) = None
   \<and> map_of (st_values (snd (scan_times_load py_int
               [((lit ''Scanner'', lit ''ScanTimeCalibration''), lit ''12'')]
               (scan_times_init\<lparr>st_values := [(lit ''normal'', 7)]\<rparr>)))) (lit ''calibration'')
      = Some 12
   \<and> map_of (st_values (snd (scan_times_load py_int
               [((lit ''Scanner'', lit ''ScanTimeCalibration''), lit ''12'')]
               (scan_times_init\<lparr>st_values := [(lit ''normal'', 7)]\<rparr>)))) (lit ''normal'')
      = None
   \<and> (lit ''normal'', lit ''Scanner'', lit ''ScanTime'') \<in> set ITEM_2_CONFIG
   \<and> cfg_get [((lit ''Scanner'', lit ''ScanTime''), lit ''fast'')] (lit ''Scanner'') (lit ''ScanTime'')
      = Inr (lit ''fast'')
   \<and> py_int (lit ''fast'') = Inl ValueError
   \<and> fst (scan_times_load py_int [((lit ''Scanner'', lit ''ScanTime''), lit ''fast'')]
             (scan_times_init :: int scan_times)) = Some ValueError"
proof -
  let ?S = "size_init (lit ''GUI'') (lit ''main_win_size'') (1024, 768) (400, 300)"
  let ?c1 = "[((lit ''GUI'', lit ''main_win_size_w''), lit ''abc'')]"
  let ?c2 = "[((lit ''Scanner'', lit ''ScanTimeCalibration''), lit ''12'')]"
  let ?c3 = "[((lit ''Scanner'', lit ''ScanTime''), lit ''fast'')]"
  let ?T = "scan_times_init\<lparr>st_values := [(lit ''normal'', 7::int)]\<rparr>"
  have fl: "\<forall>raw e. py_int raw = Inl e \<longrightarrow> e = ValueError"
    by (auto dest: py_int_error)
  have h1: "cfg_get [] (lit ''GUI'') (lit ''main_win_size'' @ lit ''_w'') = Inl NoOptionError"
    by (simp add: cfg_get_def)
  have h2: "cfg_get ?c1 (lit ''GUI'') (lit ''main_win_size'' @ lit ''_w'') = Inr (lit ''abc'')"
    by (simp add: cfg_get_def lit_simps)
  have h3: "py_int (lit ''abc'') = Inl ValueError" "py_int (lit ''fast'') = Inl ValueError"
    by (simp_all add: py_eval)
  have h4: "list_all (phase_readable py_int ?c2) ITEM_2_CONFIG"
    by (simp add: phase_readable_def ITEM_2_CONFIG_def cfg_get_def py_eval)
  have h5: "(lit ''normal'', lit ''Scanner'', lit ''ScanTime'') \<in> set ITEM_2_CONFIG"
    by (simp add: ITEM_2_CONFIG_def)
  have h6: "cfg_get ?c3 (lit ''Scanner'') (lit ''ScanTime'') = Inr (lit ''fast'')"
    by (simp add: cfg_get_def)
  have v: "phase_value py_int ?c2 (lit ''calibration'', lit ''Scanner'', lit ''ScanTimeCalibration'')
             = Some 12"
    "phase_value py_int ?c2 (lit ''normal'', lit ''Scanner'', lit ''ScanTime'') = None"
    by (simp_all add: phase_value_def cfg_get_def py_eval)
  have m: "(lit ''calibration'', lit ''Scanner'', lit ''ScanTimeCalibration'') \<in> set ITEM_2_CONFIG"
    by (simp add: ITEM_2_CONFIG_def)
  note t1 = load_absent_defaults_unparsable_raises [OF fl, of "[]" "?S\<lparr>size_val := (1280, 800)\<rparr>" ?T]
  note t2 = load_absent_defaults_unparsable_raises [OF fl, of ?c1 ?S ?T]
  note t3 = load_absent_defaults_unparsable_raises [OF fl, of ?c2 ?S ?T]
  note t4 = load_absent_defaults_unparsable_raises [OF fl, of ?c3 ?S "scan_times_init :: int scan_times"]
  have r1: "size_load [] (?S\<lparr>size_val := (1280, 800)\<rparr>) = Inr ?S"
    using t1 h1 by (simp add: size_init_def)
  have r2: "size_load ?c1 ?S = Inl ValueError"
    using t2 h2 h3(1) by (simp add: size_init_def)
  have r3: "fst (scan_times_load py_int ?c2 ?T) = None"
    and r3': "\<forall>item \<in> set ITEM_2_CONFIG.
                  map_of (st_values (snd (scan_times_load py_int ?c2 ?T))) (fst item)
                    = phase_value py_int ?c2 item"
    using t3 h4 by blast+
  have r4: "map_of (st_values (snd (scan_times_load py_int ?c2 ?T))) (lit ''calibration'') = Some 12"
    using r3' m v(1) by fastforce
  have r5: "map_of (st_values (snd (scan_times_load py_int ?c2 ?T))) (lit ''normal'') = None"
    using r3' h5 v(2) by fastforce
  have r6: "fst (scan_times_load py_int ?c3 (scan_times_init :: int scan_times)) = Some ValueError"
    using t4 h5 h6 h3(2) by blast
  from h1 r1 h2 h3 r2 h4 r3 r4 r5 h5 h6 r6 show ?thesis by blast
qed

text \<open>
  The claim C4 as stated fails: with a non-numeric width in the store, \<open>load\<close> of the
  main window's Size Pair raises \<open>ValueError\<close>.
\<close>

theorem size_load_unparsable_counterexample:
  "size_load [((lit ''GUI'', lit ''main_win_size_w''), lit ''abc'')]
     (size_init (lit ''GUI'') (lit ''main_win_size'') (1024, 768) (400, 300))
   = Inl ValueError"
  by (simp add: size_load_def size_init_def cfg_get_def py_eval)

section \<open>Date Setting: loading\<close>

lemmas date_eval = strptime_ymd_def parse_m_def parse_d_def days_in_month_def is_leap_def
  is_digit_def lit_simps Let_def

text \<open>
  C5. \<open>load\<close> of a Date Setting whose entry is present hands the stored string to
  \<open>strptime\<close> with the format \<open>%Y-%m-%d\<close>; whatever \<open>strptime\<close> raises on a string that
  does not conform reaches the caller, and a string that conforms becomes the value. When
  the entry is absent the default-value function is called and nothing is raised.
\<close>

theorem date_load_propagates:
  fixes d :: date_setting
  assumes "setting d = (string_setting sec tok)\<lparr>ps_value := pv\<rparr>"
  shows "(\<forall>v e. cfg_get config sec tok = Inr v \<and> strptime_ymd v = Inl e \<longrightarrow>
            date_load now config d = Inl e)
       \<and> (\<forall>v dt. cfg_get config sec tok = Inr v \<and> strptime_ymd v = Inr dt \<longrightarrow>
            date_load now config d
              = Inr (d\<lparr>setting := (string_setting sec tok)\<lparr>ps_value := Some v\<rparr>,
                       date_val := Some dt\<rparr>))
       \<and> (\<forall>e. cfg_get config sec tok = Inl e \<longrightarrow>
            date_load now config d
              = Inr (d\<lparr>setting := string_setting sec tok,
                       date_val := default_value_func d now\<rparr>))"
  using assms
  by (auto simp: date_load_def setting_load_def string_setting_def Let_def)

text \<open>\<open>datetime.datetime(year=1970, month=1, day=1)\<close>, the default of the update and statistics dates.\<close>

definition epoch :: datetime where
  "epoch = \<lparr>year = 1970, month = 1, day = 1, hour = 0, minute = 0, second = 0, microsecond = 0\<rparr>"

theorem date_load_propagates_witness:
  "setting (date_init (lit ''Update'') (lit ''last_check'') (\<lambda>now. Some epoch) epoch)
     = (string_setting (lit ''Update'') (lit ''last_check''))\<lparr>ps_value := None\<rparr>
   \<and> cfg_get [((lit ''Update'', lit ''last_check''), lit ''2023-02-30'')]
        (lit ''Update'') (lit ''last_check'') = Inr (lit ''2023-02-30'')
   \<and> strptime_ymd (lit ''2023-02-30'') = Inl ValueError
   \<and> date_load epoch [((lit ''Update'', lit ''last_check''), lit ''2023-02-30'')]
        (date_init (lit ''Update'') (lit ''last_check'') (\<lambda>now. Some epoch) epoch)
      = Inl ValueError
   \<and> cfg_get [] (lit ''Update'') (lit ''last_check'') = Inl NoOptionError
   \<and> date_load epoch []
        (date_init (lit ''Update'') (lit ''last_check'') (\<lambda>now. Some epoch) epoch)
      = Inr (date_init (lit ''Update'') (lit ''last_check'') (\<lambda>now. Some epoch) epoch)"
proof -
  let ?d = "date_init (lit ''Update'') (lit ''last_check'') (\<lambda>now. Some epoch) epoch"
  let ?c = "[((lit ''Update'', lit ''last_check''), lit ''2023-02-30'')]"
  have h0: "setting ?d = (string_setting (lit ''Update'') (lit ''last_check''))\<lparr>ps_value := None\<rparr>"
    by (simp add: date_init_def string_setting_def)
  have h1: "cfg_get ?c (lit ''Update'') (lit ''last_check'') = Inr (lit ''2023-02-30'')"
    by (simp add: cfg_get_def)
  have h2: "strptime_ymd (lit ''2023-02-30'') = Inl ValueError"
    by (simp add: date_eval)
  have h3: "cfg_get [] (lit ''Update'') (lit ''last_check'') = Inl NoOptionError"
    by (simp add: cfg_get_def)
  have r1: "date_load epoch ?c ?d = Inl ValueError"
    using date_load_propagates [OF h0, of ?c epoch] h1 h2 by blast
  have "date_load epoch [] ?d
        = Inr (?d\<lparr>setting := string_setting (lit ''Update'') (lit ''last_check''),
                   date_val := default_value_func ?d epoch\<rparr>)"
    using date_load_propagates [OF h0, of "[]" epoch] h3 by blast
  then have r2: "date_load epoch [] ?d = Inr ?d"
    by (simp add: date_init_def)
  from h0 h1 h2 r1 h3 r2 show ?thesis by blast
qed

section \<open>Recent List: \<open>load\<close>\<close>

lemma str_nat_inj: "str_nat m = str_nat n \<Longrightarrow> m = n"
  by (metis str_nat_val)

lemma recent_key_inj: "recent_key r i = recent_key r j \<Longrightarrow> i = j"
  by (auto simp: recent_key_def py_str_def dest: str_nat_inj)

lemma finite_recent_keys:
  "finite {i. (sec, tok @ lit ''_'' @ py_str (int i)) \<in> fst ` set (config :: store)}"
proof -
  have "inj (\<lambda>i::nat. (sec, tok @ lit ''_'' @ py_str (int i)))"
    by (auto simp: inj_on_def py_str_def dest: str_nat_inj)
  then have "finite ((\<lambda>i::nat. (sec, tok @ lit ''_'' @ py_str (int i))) -` (fst ` set config))"
    by (intro finite_vimageI) simp_all
  then show ?thesis by (simp add: vimage_def)
qed

text \<open>The positions from \<open>idx\<close> on whose key is in the store: finitely many.\<close>

definition pending :: "store \<Rightarrow> recent \<Rightarrow> nat \<Rightarrow> nat set" where
  "pending config r idx =
     {i. idx \<le> i \<and> (section_name r, recent_key r i) \<in> fst ` set config}"

lemma finite_pending: "finite (pending config r idx)"
  using finite_recent_keys [of "section_name r" "base_token r" config]
  by (simp add: pending_def recent_key_def)

lemma pending_push: "pending config (push r v) idx = pending config r idx"
  by (simp add: pending_def recent_key_def push_fields)

lemma cfg_get_present: "cfg_get config sec key = Inr v \<Longrightarrow> (sec, key) \<in> fst ` set config"
  by (auto simp: cfg_get_def split: option.splits dest: map_of_SomeD intro: rev_image_eqI)

lemma pending_Suc:
  "cfg_get config (section_name r) (recent_key r idx) = Inr v \<Longrightarrow>
   card (pending config r (Suc idx)) < card (pending config r idx)"
proof -
  assume "cfg_get config (section_name r) (recent_key r idx) = Inr v"
  then have "idx \<in> pending config r idx"
    by (simp add: pending_def cfg_get_present)
  moreover have "idx \<notin> pending config r (Suc idx)"
    by (simp add: pending_def)
  moreover have "pending config r (Suc idx) \<subseteq> pending config r idx"
    by (auto simp: pending_def)
  ultimately have "pending config r (Suc idx) \<subset> pending config r idx" by blast
  then show ?thesis
    using finite_pending by (rule psubset_card_mono [rotated])
qed

text \<open>
  \<open>load\<close> (lines 238-250): the list is emptied, then the entries are read from position
  0 until the first position whose key is missing. What the decoding raises is not
  caught; the entries pushed before it stay.
\<close>

function recent_load_loop :: "store \<Rightarrow> recent \<Rightarrow> nat \<Rightarrow> error option \<times> recent" where
  "recent_load_loop config r idx =
     (case cfg_get config (section_name r) (recent_key r idx) of
        Inl e \<Rightarrow> if is_missing e then (None, r) else (Some e, r)
      | Inr v \<Rightarrow>
          (case decode_entry v of
             Inl e \<Rightarrow> (Some e, r)
           | Inr v \<Rightarrow> recent_load_loop config (push r v) (idx + 1)))"
  by pat_completeness auto
termination
  by (relation "measure (\<lambda>(config, r, idx). card (pending config r idx))")
     (simp_all add: pending_push pending_Suc)

declare recent_load_loop.simps [simp del]

definition recent_load :: "store \<Rightarrow> recent \<Rightarrow> error option \<times> recent" where
  "recent_load config r = recent_load_loop config (r\<lparr>val := []\<rparr>) 0"

section \<open>Recent List: what \<open>load\<close> and \<open>update\<close> touch\<close>

text \<open>
  C10. \<open>load\<close> empties the list before it reads: two Recent Lists of the same section,
  base token and maximum length, whatever their entries, come out of \<open>load\<close> against the
  same store equal, raising the same exception if any. \<open>load\<close> returns for every store:
  the store is finite and the keys of distinct positions differ.
\<close>

theorem recent_load_ignores_memory:
  "recent_load config (r\<lparr>val := xs\<rparr>) = recent_load config (r\<lparr>val := ys\<rparr>)"
  by (simp add: recent_load_def)

lemma update_loop_frame:
  "\<forall>j < length vs. (s, k) \<noteq> (section_name r, recent_key r (idx + j)) \<Longrightarrow>
   cfg_get (snd (recent_update_loop r idx vs config)) s k = cfg_get config s k"
proof (induction vs arbitrary: idx config)
  case Nil
  then show ?case by simp
next
  case (Cons v vs)
  show ?case
  proof (cases "encode_entry v")
    case (Inl e)
    then show ?thesis by simp
  next
    case (Inr enc)
    have a: "\<forall>j < length vs. (s, k) \<noteq> (section_name r, recent_key r (Suc idx + j))"
      using Cons.prems by auto
    have b: "(s, k) \<noteq> (section_name r, recent_key r idx)"
      using Cons.prems by force
    show ?thesis
      using Inr Cons.IH [OF a] b by (auto simp: cfg_get_set)
  qed
qed

lemma update_loop_written:
  "fst (recent_update_loop r idx vs config) = None \<Longrightarrow> j < length vs \<Longrightarrow>
   cfg_get (snd (recent_update_loop r idx vs config)) (section_name r) (recent_key r (idx + j))
     = encode_entry (vs ! j)"
proof (induction vs arbitrary: idx config j)
  case Nil
  then show ?case by simp
next
  case (Cons v vs)
  from Cons.prems(1) obtain enc where enc: "encode_entry v = Inr enc"
    by (cases "encode_entry v") auto
  let ?c = "cfg_set config (section_name r) (recent_key r idx) enc"
  have e: "recent_update_loop r idx (v # vs) config = recent_update_loop r (Suc idx) vs ?c"
    using enc by simp
  show ?case
  proof (cases j)
    case 0
    have "\<forall>j < length vs. (section_name r, recent_key r idx)
            \<noteq> (section_name r, recent_key r (Suc idx + j))"
      by (auto dest: recent_key_inj)
    from update_loop_frame [OF this, of ?c]
    show ?thesis unfolding e using 0 enc by (simp add: cfg_get_set)
  next
    case (Suc j')
    have "fst (recent_update_loop r (Suc idx) vs ?c) = None"
      using Cons.prems(1) unfolding e .
    moreover have "j' < length vs" using Cons.prems(2) Suc by simp
    ultimately show ?thesis
      unfolding e using Cons.IH [of "Suc idx" ?c j'] Suc by simp
  qed
qed

lemma update_loop_ok:
  "fst (recent_update_loop r idx vs config) = None \<longleftrightarrow> list_all (\<lambda>v. \<not> isl (encode_entry v)) vs"
  by (induction vs arbitrary: idx config) (auto split: sum.splits)

lemma b64_char_ascii: "b64_char n < 128"
  unfolding b64_char_def by auto

lemma b2a_groups_ascii: "\<forall>c \<in> set (b2a_groups bs). c < 128"
  by (induction bs rule: b2a_groups.induct) (simp_all add: b64_char_ascii)

lemma encodebytes_ascii: "\<forall>c \<in> set (encodebytes bs). c < 128"
proof (induction bs rule: encodebytes.induct)
  case (1 s)
  show ?case
  proof (cases "s = []")
    case True
    then show ?thesis by (subst encodebytes.simps) simp
  next
    case False
    with 1 show ?thesis
      by (subst encodebytes.simps) (auto simp: b2a_base64_def dest: b2a_groups_ascii [rule_format])
  qed
qed

lemma utf8_decode_ascii: "\<forall>c \<in> set s. c < 128 \<Longrightarrow> utf8_decode s = Inr s"
  by (induction s) simp_all

lemma utf8_encode_ascii: "\<forall>c \<in> set s. c < 128 \<Longrightarrow> utf8_encode s = Inr s"
  by (induction s) (simp_all add: utf8_encode_char_def)

lemma set_bytes_strip: "set (bytes_strip s) \<subseteq> set s"
  unfolding bytes_strip_def
  by (metis set_dropWhileD set_rev subsetI)

lemma encode_entry_eq:
  "encode_entry v = ebind (utf8_encode v) (\<lambda>b. Inr (bytes_strip (encodebytes b)))"
proof -
  have "utf8_decode (bytes_strip (encodebytes b)) = Inr (bytes_strip (encodebytes b))" for b
    using encodebytes_ascii [of b] set_bytes_strip [of "encodebytes b"]
    by (intro utf8_decode_ascii) blast
  then show ?thesis by (simp add: encode_entry_def)
qed

lemma isl_encode_entry: "isl (encode_entry v) \<longleftrightarrow> isl (utf8_encode v)"
  by (cases "utf8_encode v") (simp_all add: encode_entry_eq)

text \<open>
  C9. \<open>update\<close> of a Recent List with \<open>n\<close> entries changes no store entry other than the
  indexed keys of the positions below \<open>n\<close>; in particular the indexed keys of the
  positions from \<open>n\<close> on keep what they held. When it raises nothing, each position below
  \<open>n\<close> holds the base64 text of its entry's UTF-8 octets, without the final newline; it
  raises nothing exactly when every entry can be encoded in UTF-8.
\<close>

theorem recent_update_frame:
  "(\<forall>s k. (\<forall>i < length (val r). (s, k) \<noteq> (section_name r, recent_key r i)) \<longrightarrow>
       cfg_get (snd (recent_update config r)) s k = cfg_get config s k)
   \<and> (\<forall>i \<ge> length (val r).
        cfg_get (snd (recent_update config r)) (section_name r) (recent_key r i)
          = cfg_get config (section_name r) (recent_key r i))
   \<and> (fst (recent_update config r) = None \<longrightarrow>
        (\<forall>i < length (val r).
           cfg_get (snd (recent_update config r)) (section_name r) (recent_key r i)
             = encode_entry (val r ! i)
           \<and> encode_entry (val r ! i)
             = ebind (utf8_encode (val r ! i)) (\<lambda>b. Inr (bytes_strip (encodebytes b)))))
   \<and> (fst (recent_update config r) = None
        \<longleftrightarrow> list_all (\<lambda>v. \<not> isl (utf8_encode v)) (val r))"
proof -
  have a: "\<forall>s k. (\<forall>i < length (val r). (s, k) \<noteq> (section_name r, recent_key r i)) \<longrightarrow>
       cfg_get (snd (recent_update config r)) s k = cfg_get config s k"
    unfolding recent_update_def
    using update_loop_frame [of "val r" _ _ r 0 config] by simp
  have b: "\<forall>i \<ge> length (val r).
        cfg_get (snd (recent_update config r)) (section_name r) (recent_key r i)
          = cfg_get config (section_name r) (recent_key r i)"
  proof (intro allI impI)
    fix i assume i: "length (val r) \<le> i"
    have "\<forall>j < length (val r). (section_name r, recent_key r i) \<noteq> (section_name r, recent_key r j)"
      using i by (auto dest: recent_key_inj)
    with a show "cfg_get (snd (recent_update config r)) (section_name r) (recent_key r i)
          = cfg_get config (section_name r) (recent_key r i)" by blast
  qed
  have c: "fst (recent_update config r) = None \<longrightarrow>
        (\<forall>i < length (val r).
           cfg_get (snd (recent_update config r)) (section_name r) (recent_key r i)
             = encode_entry (val r ! i)
           \<and> encode_entry (val r ! i)
             = ebind (utf8_encode (val r ! i)) (\<lambda>b. Inr (bytes_strip (encodebytes b))))"
    unfolding recent_update_def
    using update_loop_written [of r 0 "val r" config] by (simp add: encode_entry_eq)
  have d: "fst (recent_update config r) = None
        \<longleftrightarrow> list_all (\<lambda>v. \<not> isl (utf8_encode v)) (val r)"
    unfolding recent_update_def by (simp add: update_loop_ok isl_encode_entry)
  from a b c d show ?thesis by blast
qed


text \<open>
  A store that still holds position 1 of an older, longer list of recent documents
  (\<open>enp6\<close> is the encoding of \<open>zzz\<close>), and a list of one entry.
\<close>

definition stale_store :: store where
  "stale_store = [((lit ''recent'', lit ''documents_1''), lit ''enp6'')]"

definition one_recent :: recent where
  "one_recent = push (recent_init (lit ''recent'') (lit ''documents'') 3) (lit ''a'')"

theorem recent_update_frame_witness:
  "list_all (\<lambda>i. (lit ''recent'', lit ''documents_1'')
                  \<noteq> (section_name one_recent, recent_key one_recent i))
     [0..<length (val one_recent)]
   \<and> length (val one_recent) \<le> 1
   \<and> recent_key one_recent 1 = lit ''documents_1''
   \<and> cfg_get (snd (recent_update stale_store one_recent)) (lit ''recent'') (lit ''documents_1'')
      = Inr (lit ''enp6'')
   \<and> fst (recent_update stale_store one_recent) = None
   \<and> 0 < length (val one_recent)
   \<and> cfg_get (snd (recent_update stale_store one_recent)) (lit ''recent'') (lit ''documents_0'')
      = Inr (lit ''YQ=='')"
proof -
  have v: "val one_recent = [lit ''a'']" and s: "section_name one_recent = lit ''recent''"
    and b: "base_token one_recent = lit ''documents''"
    by (simp_all add: one_recent_def push_def recent_init_def strip_def is_space_def
        lit_simps Let_def)
  have k: "recent_key one_recent 0 = lit ''documents_0''"
    "recent_key one_recent 1 = lit ''documents_1''"
    by (simp_all add: recent_key_def b lit_simps py_str_def str_nat.simps)
  have h1: "list_all (\<lambda>i. (lit ''recent'', lit ''documents_1'')
                  \<noteq> (section_name one_recent, recent_key one_recent i))
     [0..<length (val one_recent)]"
    by (simp add: v k lit_simps)
  have e: "encode_entry (lit ''a'') = Inr (lit ''YQ=='')"
    by (simp add: encode_entry_eq lit_simps utf8_encode_char_def encodebytes.simps
        b2a_base64_def b64_char_def bytes_strip_def bytes_space_def)
  have u: "list_all (\<lambda>v. \<not> isl (utf8_encode v)) (val one_recent)"
    by (simp add: v lit_simps utf8_encode_char_def)
  have g: "cfg_get stale_store (lit ''recent'') (lit ''documents_1'') = Inr (lit ''enp6'')"
    by (simp add: cfg_get_def stale_store_def)
  note t = recent_update_frame [of one_recent stale_store]
  have h2: "fst (recent_update stale_store one_recent) = None"
    using t u by blast
  have r1: "cfg_get (snd (recent_update stale_store one_recent)) (lit ''recent'') (lit ''documents_1'')
      = Inr (lit ''enp6'')"
    using t h1 g by (simp add: list_all_iff)
  have r2: "cfg_get (snd (recent_update stale_store one_recent)) (lit ''recent'') (lit ''documents_0'')
      = Inr (lit ''YQ=='')"
    using t h2 e v s k(1) by simp
  from h1 v k(2) r1 h2 r2 show ?thesis by simp
qed

section \<open>UTF-8: decoding what was encoded\<close>

lemma split2: "(c::nat) div 64 * 64 + c mod 64 = c"
  by simp

lemma low12: "(c::nat) div 64 mod 64 * 64 + c mod 64 = c mod 4096"
  using mod_mult2_eq [of c 64 64] by simp

lemma split3: "(c::nat) div 4096 * 4096 + c div 64 mod 64 * 64 + c mod 64 = c"
  using low12 [of c] div_mult_mod_eq [of c 4096] by linarith

lemma low18: "(c::nat) div 4096 mod 64 * 4096 + c mod 4096 = c mod 262144"
  using mod_mult2_eq [of c 4096 64] by simp

lemma split4:
  "(c::nat) div 262144 * 262144 + c div 4096 mod 64 * 4096 + c div 64 mod 64 * 64 + c mod 64 = c"
  using low12 [of c] low18 [of c] div_mult_mod_eq [of c 262144] by linarith

lemma utf8_decode2:
  "128 \<le> c \<Longrightarrow> c < 2048 \<Longrightarrow>
   utf8_decode ((192 + c div 64) # (128 + c mod 64) # rest)
     = ebind (utf8_decode rest) (\<lambda>r. Inr (c # r))"
proof -
  assume c: "128 \<le> c" "c < 2048"
  have r: "c div 64 < 32" using c by simp
  have m: "c mod 64 < 64" by simp
  show ?thesis
    using c r m by (simp add: is_cont_def Let_def split2)
qed


lemma utf8_decode3:
  "2048 \<le> c \<Longrightarrow> c < 65536 \<Longrightarrow> \<not> (55296 \<le> c \<and> c \<le> 57343) \<Longrightarrow>
   utf8_decode ((224 + c div 4096) # (128 + c div 64 mod 64) # (128 + c mod 64) # rest)
     = ebind (utf8_decode rest) (\<lambda>r. Inr (c # r))"
proof -
  assume c: "2048 \<le> c" "c < 65536" "\<not> (55296 \<le> c \<and> c \<le> 57343)"
  have r: "c div 4096 < 16" using c by simp
  have m: "c mod 64 < 64" "c div 64 mod 64 < 64" by simp_all
  have e: "(224 + c div 4096 - 224) * 4096 + (128 + c div 64 mod 64 - 128) * 64
             + (128 + c mod 64 - 128) = c"
    using split3 [of c] by simp
  show ?thesis
    apply (subst utf8_decode.simps)
    apply (simp only: list.case Let_def e)
    using c r m by (simp add: is_cont_def)
qed

lemma utf8_decode4:
  "65536 \<le> c \<Longrightarrow> c < 1114112 \<Longrightarrow>
   utf8_decode ((240 + c div 262144) # (128 + c div 4096 mod 64) # (128 + c div 64 mod 64)
                  # (128 + c mod 64) # rest)
     = ebind (utf8_decode rest) (\<lambda>r. Inr (c # r))"
proof -
  assume c: "65536 \<le> c" "c < 1114112"
  have r: "c div 262144 < 8" using c by simp
  have m: "c mod 64 < 64" "c div 64 mod 64 < 64" "c div 4096 mod 64 < 64" by simp_all
  have e: "(240 + c div 262144 - 240) * 262144 + (128 + c div 4096 mod 64 - 128) * 4096
             + (128 + c div 64 mod 64 - 128) * 64 + (128 + c mod 64 - 128) = c"
    using split4 [of c] by simp
  show ?thesis
    apply (subst utf8_decode.simps)
    apply (simp only: list.case Let_def e)
    using c r m by (simp add: is_cont_def)
qed


lemma utf8_encode_char_cases:
  assumes "utf8_encode_char c = Some bs"
  obtains "c < 128" "bs = [c]"
  | "128 \<le> c" "c < 2048" "bs = [192 + c div 64, 128 + c mod 64]"
  | "2048 \<le> c" "c < 65536" "\<not> (55296 \<le> c \<and> c \<le> 57343)"
    "bs = [224 + c div 4096, 128 + c div 64 mod 64, 128 + c mod 64]"
  | "65536 \<le> c" "c < 1114112"
    "bs = [240 + c div 262144, 128 + c div 4096 mod 64, 128 + c div 64 mod 64, 128 + c mod 64]"
proof (cases "c < 128")
  case True
  with assms that(1) show ?thesis by (simp add: utf8_encode_char_def)
next
  case n1: False
  show ?thesis
  proof (cases "c < 2048")
    case True
    with assms n1 that(2) show ?thesis by (simp add: utf8_encode_char_def)
  next
    case n2: False
    show ?thesis
    proof (cases "c < 65536")
      case True
      with assms n1 n2 that(3) show ?thesis
        by (simp add: utf8_encode_char_def split: if_splits)
    next
      case n3: False
      with assms n1 n2 that(4) show ?thesis
        by (simp add: utf8_encode_char_def split: if_splits)
    qed
  qed
qed

lemma utf8_char_roundtrip:
  assumes "utf8_encode_char c = Some bs"
  shows "utf8_decode (bs @ rest) = ebind (utf8_decode rest) (\<lambda>r. Inr (c # r))"
  using assms
proof (cases rule: utf8_encode_char_cases)
  case 1
  then show ?thesis by simp
next
  case 2
  from 2(1,2) have "utf8_decode ((192 + c div 64) # (128 + c mod 64) # rest)
      = ebind (utf8_decode rest) (\<lambda>r. Inr (c # r))"
    by (rule utf8_decode2)
  then show ?thesis unfolding 2(3) by (simp only: append_Cons append_Nil)
next
  case 3
  from 3(1,2,3) have
    "utf8_decode ((224 + c div 4096) # (128 + c div 64 mod 64) # (128 + c mod 64) # rest)
      = ebind (utf8_decode rest) (\<lambda>r. Inr (c # r))"
    by (rule utf8_decode3)
  then show ?thesis unfolding 3(4) by (simp only: append_Cons append_Nil)
next
  case 4
  from 4(1,2) have
    "utf8_decode ((240 + c div 262144) # (128 + c div 4096 mod 64) # (128 + c div 64 mod 64)
                  # (128 + c mod 64) # rest)
      = ebind (utf8_decode rest) (\<lambda>r. Inr (c # r))"
    by (rule utf8_decode4)
  then show ?thesis unfolding 4(3) by (simp only: append_Cons append_Nil)
qed

lemma utf8_encode_Cons:
  "utf8_encode (c # cs) = Inr bs \<Longrightarrow>
   \<exists>b r. utf8_encode_char c = Some b \<and> utf8_encode cs = Inr r \<and> bs = b @ r"
  by (cases "utf8_encode_char c"; cases "utf8_encode cs") auto

lemma utf8_roundtrip: "utf8_encode s = Inr bs \<Longrightarrow> utf8_decode bs = Inr s"
proof (induction s arbitrary: bs)
  case Nil
  then show ?case by simp
next
  case (Cons c cs)
  from utf8_encode_Cons [OF Cons.prems] obtain b r where b: "utf8_encode_char c = Some b"
    and r: "utf8_encode cs = Inr r" and bs: "bs = b @ r"
    by blast
  from Cons.IH [OF r] utf8_char_roundtrip [OF b, of r] show ?case
    unfolding bs by simp
qed

lemma sextet_lt: "(x::nat) mod 64 < 128"
  by (rule order_less_trans [of _ 64]) simp_all

lemma utf8_char_octets:
  assumes "utf8_encode_char c = Some bs"
  shows "\<forall>b \<in> set bs. b < 256"
  using assms
proof (cases rule: utf8_encode_char_cases)
  case 1
  then show ?thesis by simp
next
  case 2
  have "c div 64 < 32" using 2 by simp
  with 2 show ?thesis by (simp add: sextet_lt)
next
  case 3
  have "c div 4096 < 16" using 3 by simp
  with 3 show ?thesis by (simp add: sextet_lt)
next
  case 4
  have "c div 262144 < 8" using 4 by simp
  with 4 show ?thesis by (simp add: sextet_lt)
qed

lemma utf8_octets: "utf8_encode s = Inr bs \<Longrightarrow> \<forall>b \<in> set bs. b < 256"
proof (induction s arbitrary: bs)
  case Nil
  then show ?case by simp
next
  case (Cons c cs)
  from utf8_encode_Cons [OF Cons.prems] obtain b r where b: "utf8_encode_char c = Some b"
    and r: "utf8_encode cs = Inr r" and bs: "bs = b @ r"
    by blast
  from Cons.IH [OF r] utf8_char_octets [OF b] show ?case
    unfolding bs by auto
qed

section \<open>Base64: decoding what was encoded\<close>

lemma table_b64_char: "n < 64 \<Longrightarrow> table_a2b (b64_char n) = Some n"
  unfolding table_a2b_def b64_char_def by auto

lemma b64_char_not_pad: "b64_char n \<noteq> 61"
  unfolding b64_char_def by auto

lemma a2b_space:
  "bytes_space c \<Longrightarrow> a2b_loop q l p (c # rest) out = a2b_loop q l p rest out"
  by (auto simp: bytes_space_def table_a2b_def)

lemma a2b_data:
  "n < 64 \<Longrightarrow>
   a2b_loop q l p (b64_char n # rest) out =
     (if q = 0 then a2b_loop 1 n 0 rest out
      else if q = 1 then a2b_loop 2 (n mod 16) 0 rest (out @ [l * 4 + n div 16])
      else if q = 2 then a2b_loop 3 (n mod 4) 0 rest (out @ [l * 16 + n div 4])
      else a2b_loop 0 0 0 rest (out @ [l * 64 + n]))"
  by (simp add: table_b64_char b64_char_not_pad)

lemma a2b_q0: "a2b_loop 0 l p s out = a2b_loop 0 0 0 s out"
  by (induction s arbitrary: l p) (simp_all split: option.splits)

lemma sextets:
  assumes "a < 256" "b < 256" "c < (256::nat)"
  shows "a div 4 < 64" "a mod 4 * 16 + b div 16 < 64" "b mod 16 * 4 + c div 64 < 64"
    "c mod 64 < 64" "a mod 4 * 16 < 64" "b mod 16 * 4 < 64"
proof -
  have "a mod 4 < 4" "b mod 16 < 16" by simp_all
  moreover have "b div 16 < 16" "c div 64 < 4" "a div 4 < 64" using assms by simp_all
  ultimately show "a div 4 < 64" "a mod 4 * 16 + b div 16 < 64"
    "b mod 16 * 4 + c div 64 < 64" "a mod 4 * 16 < 64" "b mod 16 * 4 < 64"
    by linarith+
  show "c mod 64 < 64" by simp
qed

lemma a2b_pad:
  "a2b_loop q l p (61 # rest) out =
     (if 2 \<le> q \<and> 4 \<le> q + (p + 1) then Inr out
      else a2b_loop q l (if 2 \<le> q then p + 1 else p) rest out)"
  by simp

lemma a2b_group:
  assumes "a < 256" "b < 256" "c < 256"
  shows "a2b_loop 0 0 0
           (b64_char (a div 4) # b64_char (a mod 4 * 16 + b div 16)
              # b64_char (b mod 16 * 4 + c div 64) # b64_char (c mod 64) # rest) out
         = a2b_loop 0 0 0 rest (out @ [a, b, c])"
proof -
  note s = sextets [OF assms]
  note d = a2b_data [OF s(1)] a2b_data [OF s(2)] a2b_data [OF s(3)] a2b_data [OF s(4)]
  have o: "b div 16 < 16" "c div 64 < 4" using assms by simp_all
  show ?thesis
    by (simp add: d o assms del: a2b_loop.simps)
qed

lemma a2b_group1:
  assumes "a < (256::nat)"
  shows "a2b_loop 0 0 0 (b64_char (a div 4) # b64_char (a mod 4 * 16) # 61 # 61 # rest) out
         = Inr (out @ [a])"
proof -
  note s = sextets [OF assms assms assms]
  note d = a2b_data [OF s(1)] a2b_data [OF s(5)]
  show ?thesis
    by (simp add: d a2b_pad del: a2b_loop.simps)
qed

lemma a2b_group2:
  assumes "a < (256::nat)" "b < 256"
  shows "a2b_loop 0 0 0
           (b64_char (a div 4) # b64_char (a mod 4 * 16 + b div 16) # b64_char (b mod 16 * 4)
              # 61 # rest) out
         = Inr (out @ [a, b])"
proof -
  note s = sextets [OF assms assms(2)]
  note d = a2b_data [OF s(1)] a2b_data [OF s(2)] a2b_data [OF s(6)]
  have o: "b div 16 < 16" using assms by simp
  show ?thesis
    by (simp add: d o assms a2b_pad del: a2b_loop.simps)
qed

lemma a2b_groups_full:
  "length bs mod 3 = 0 \<Longrightarrow> \<forall>b \<in> set bs. b < 256 \<Longrightarrow>
   a2b_loop 0 0 0 (b2a_groups bs @ rest) out = a2b_loop 0 0 0 rest (out @ bs)"
proof (induction bs arbitrary: out rule: b2a_groups.induct)
  case 1
  then show ?case by simp
next
  case (2 a)
  then show ?case by simp
next
  case (3 a b)
  then show ?case by simp
next
  case (4 a b c bs)
  from "4.prems" have l: "length bs mod 3 = 0" and s: "\<forall>b \<in> set bs. b < 256"
    and abc: "a < 256" "b < 256" "c < 256"
    by simp_all
  have "a2b_loop 0 0 0 (b2a_groups (a # b # c # bs) @ rest) out
        = a2b_loop 0 0 0 (b2a_groups bs @ rest) (out @ [a, b, c])"
    using a2b_group [OF abc] by simp
  also have "\<dots> = a2b_loop 0 0 0 rest ((out @ [a, b, c]) @ bs)"
    using l s by (rule "4.IH")
  finally show ?case by simp
qed

lemma a2b_spaces:
  "list_all bytes_space ws \<Longrightarrow> a2b_loop q l p ws out = a2b_loop q l p [] out"
  by (induction ws) (simp_all add: a2b_space del: a2b_loop.simps)

lemma a2b_groups_last:
  "\<forall>b \<in> set bs. b < 256 \<Longrightarrow> list_all bytes_space ws \<Longrightarrow>
   a2b_loop 0 0 0 (b2a_groups bs @ ws) out = Inr (out @ bs)"
proof (induction bs arbitrary: out rule: b2a_groups.induct)
  case 1
  then show ?case using a2b_spaces [of ws 0 0 0 out] by simp
next
  case (2 a)
  then have a: "a < 256" by simp
  from a2b_group1 [OF a] show ?case by simp
next
  case (3 a b)
  then have ab: "a < 256" "b < 256" by simp_all
  from a2b_group2 [OF ab] show ?case by simp
next
  case (4 a b c bs)
  from "4.prems" have s: "\<forall>b \<in> set bs. b < 256" and abc: "a < 256" "b < 256" "c < 256"
    by simp_all
  have "a2b_loop 0 0 0 (b2a_groups (a # b # c # bs) @ ws) out
        = a2b_loop 0 0 0 (b2a_groups bs @ ws) (out @ [a, b, c])"
    using a2b_group [OF abc] by simp
  also have "\<dots> = Inr ((out @ [a, b, c]) @ bs)"
    using s "4.prems"(2) by (rule "4.IH")
  finally show ?case by simp
qed

lemma a2b_encodebytes:
  "\<forall>b \<in> set bs. b < 256 \<Longrightarrow> a2b_loop 0 0 0 (encodebytes bs) out = Inr (out @ bs)"
proof (induction bs arbitrary: out rule: encodebytes.induct)
  case (1 s)
  show ?case
  proof (cases "s = []")
    case True
    then show ?thesis by (subst encodebytes.simps) simp
  next
    case False
    have e: "encodebytes s = b2a_groups (take 57 s) @ 10 # encodebytes (drop 57 s)"
      using False by (subst encodebytes.simps) (simp add: b2a_base64_def)
    have t: "\<forall>b \<in> set (take 57 s). b < 256" and d: "\<forall>b \<in> set (drop 57 s). b < 256"
      using "1.prems" by (auto dest: in_set_takeD in_set_dropD)
    show ?thesis
    proof (cases "length s \<le> 57")
      case True
      then have "encodebytes s = b2a_groups s @ [10]"
        unfolding e by (subst encodebytes.simps) simp
      moreover have "list_all bytes_space [10]" by (simp add: bytes_space_def)
      ultimately show ?thesis
        using a2b_groups_last [OF "1.prems"] by simp
    next
      case long: False
      then have "length (take 57 s) mod 3 = 0" by simp
      from a2b_groups_full [OF this t]
      have "a2b_loop 0 0 0 (encodebytes s) out
            = a2b_loop 0 0 0 (10 # encodebytes (drop 57 s)) (out @ take 57 s)"
        unfolding e by simp
      also have "\<dots> = a2b_loop 0 0 0 (encodebytes (drop 57 s)) (out @ take 57 s)"
        by (rule a2b_space) (simp add: bytes_space_def)
      also have "\<dots> = Inr ((out @ take 57 s) @ drop 57 s)"
        using False d by (rule "1.IH")
      finally show ?thesis by simp
    qed
  qed
qed

lemma a2b_trailing:
  "list_all bytes_space ws \<Longrightarrow> a2b_loop q l p (t @ ws) out = a2b_loop q l p t out"
proof (induction t arbitrary: q l p out)
  case Nil
  then show ?case using a2b_spaces [of ws q l p out] by simp
next
  case (Cons ch t)
  then show ?case by (simp split: option.splits)
qed

lemma a2b_leading: "a2b_loop q l p (dropWhile bytes_space s) out = a2b_loop q l p s out"
  by (induction s) (simp_all add: a2b_space del: a2b_loop.simps)

lemma a2b_strip: "a2b_loop q l p (bytes_strip s) out = a2b_loop q l p s out"
proof -
  let ?d = "dropWhile bytes_space s"
  have "?d = rev (dropWhile bytes_space (rev ?d)) @ rev (takeWhile bytes_space (rev ?d))"
    by (metis rev_append rev_rev_ident takeWhile_dropWhile_id)
  moreover have "list_all bytes_space (rev (takeWhile bytes_space (rev ?d)))"
    by (simp add: list_all_iff) (metis set_takeWhileD)
  ultimately have "a2b_loop q l p ?d out = a2b_loop q l p (bytes_strip s) out"
    unfolding bytes_strip_def by (metis a2b_trailing)
  then show ?thesis by (simp add: a2b_leading)
qed

lemma base64_roundtrip:
  "\<forall>b \<in> set bs. b < 256 \<Longrightarrow> decodebytes (bytes_strip (encodebytes bs)) = Inr bs"
  using a2b_encodebytes [of bs "[]"] by (simp add: decodebytes_def a2b_strip)

section \<open>Recent List: writing and loading\<close>

lemma entry_roundtrip: "encode_entry v = Inr enc \<Longrightarrow> decode_entry enc = Inr v"
proof -
  assume a: "encode_entry v = Inr enc"
  then obtain b where b: "utf8_encode v = Inr b" and enc: "enc = bytes_strip (encodebytes b)"
    by (cases "utf8_encode v") (simp_all add: encode_entry_eq)
  have "\<forall>c \<in> set enc. c < 128"
    unfolding enc using encodebytes_ascii [of b] set_bytes_strip [of "encodebytes b"] by blast
  then have 1: "utf8_encode enc = Inr enc" by (rule utf8_encode_ascii)
  have 2: "decodebytes enc = Inr b"
    unfolding enc using utf8_octets [OF b] by (rule base64_roundtrip)
  have 3: "utf8_decode b = Inr v" using b by (rule utf8_roundtrip)
  show ?thesis by (simp add: decode_entry_def 1 2 3)
qed

lemma load_loop_written:
  assumes inv: "recent_inv r"
    and wr: "\<forall>i < length (val r).
               \<exists>enc. cfg_get config (section_name r) (recent_key r i) = Inr enc
                     \<and> encode_entry (val r ! i) = Inr enc"
    and stop: "cfg_get config (section_name r) (recent_key r (length (val r))) = Inl NoOptionError"
  shows "k = length (val r) - i \<Longrightarrow> i \<le> length (val r) \<Longrightarrow>
         recent_load_loop config (r\<lparr>val := take i (val r)\<rparr>) i = (None, r)"
proof (induction k arbitrary: i)
  case 0
  then have i: "i = length (val r)" by simp
  show ?case
    unfolding i using stop
    by (subst recent_load_loop.simps) (simp add: recent_key_def)
next
  case (Suc k)
  then have i: "i < length (val r)" by simp
  let ?v = "val r ! i"
  let ?ri = "r\<lparr>val := take i (val r)\<rparr>"
  from wr i obtain enc where g: "cfg_get config (section_name r) (recent_key r i) = Inr enc"
    and e: "encode_entry ?v = Inr enc" by blast
  have d: "decode_entry enc = Inr ?v" using e by (rule entry_roundtrip)
  have vin: "?v \<in> set (val r)" using i by simp
  have ok: "strip ?v = ?v" "?v \<noteq> []"
    using inv vin by (auto simp: recent_inv_def entry_ok_def)
  have dist: "distinct (val r)" and len: "length (val r) \<le> max_length r"
    using inv by (simp_all add: recent_inv_def)
  have "take (Suc i) (val r) = take i (val r) @ [?v]"
    using i by (rule take_Suc_conv_app_nth)
  moreover from dist have "distinct (take (Suc i) (val r))" by simp
  ultimately have "distinct (take i (val r) @ [?v])" by simp
  then have notin: "?v \<notin> set (take i (val r))" by simp
  have p: "push ?ri ?v = r\<lparr>val := take (Suc i) (val r)\<rparr>"
    using ok notin i len
    by (simp add: push_def Let_def take_Suc_conv_app_nth min_def)
  have "recent_load_loop config ?ri i = recent_load_loop config (push ?ri ?v) (i + 1)"
    using g d by (subst recent_load_loop.simps) (simp add: recent_key_def)
  also have "\<dots> = recent_load_loop config (r\<lparr>val := take (Suc i) (val r)\<rparr>) (Suc i)"
    by (simp add: p)
  also have "\<dots> = (None, r)"
    using Suc.prems i by (intro Suc.IH) simp_all
  finally show ?case .
qed


text \<open>
  C6, as the code has it. For a Recent List built by pushes, when \<open>update\<close> raises
  nothing and the store holds no indexed key at the position after the last entry,
  \<open>load\<close> from the store that \<open>update\<close> leaves gives the same object back, with the same
  entries in the same order, whatever the list held before \<open>load\<close>.
\<close>

theorem recent_update_load_roundtrip:
  assumes "r = push_all (recent_init sec tok m) vs"
    and "fst (recent_update config r) = None"
    and "cfg_get config sec (recent_key r (length (val r))) = Inl NoOptionError"
  shows "recent_load (snd (recent_update config r)) (r\<lparr>val := xs\<rparr>) = (None, r)"
proof -
  let ?c = "snd (recent_update config r)"
  have inv: "recent_inv r"
    unfolding assms(1) by (rule recent_inv_push_all [OF recent_inv_init])
  have sec: "section_name r = sec"
    unfolding assms(1) by (simp add: push_all_fields recent_init_def)
  have none: "fst (recent_update_loop r 0 (val r) config) = None"
    using assms(2) by (simp add: recent_update_def)
  have wr: "\<forall>i < length (val r).
               \<exists>enc. cfg_get ?c (section_name r) (recent_key r i) = Inr enc
                     \<and> encode_entry (val r ! i) = Inr enc"
  proof (intro allI impI)
    fix i assume i: "i < length (val r)"
    have w: "cfg_get ?c (section_name r) (recent_key r i) = encode_entry (val r ! i)"
      unfolding recent_update_def using update_loop_written [OF none i] by simp
    from none have "list_all (\<lambda>v. \<not> isl (encode_entry v)) (val r)"
      by (simp add: update_loop_ok)
    with i have "\<not> isl (encode_entry (val r ! i))"
      by (simp add: list_all_length)
    then obtain enc where "encode_entry (val r ! i) = Inr enc"
      by (cases "encode_entry (val r ! i)") auto
    with w show "\<exists>enc. cfg_get ?c (section_name r) (recent_key r i) = Inr enc
                     \<and> encode_entry (val r ! i) = Inr enc" by simp
  qed
  have "\<forall>j < length (val r). (section_name r, recent_key r (length (val r)))
          \<noteq> (section_name r, recent_key r (0 + j))"
    by (auto dest: recent_key_inj)
  from update_loop_frame [OF this, of config]
  have stop: "cfg_get ?c (section_name r) (recent_key r (length (val r))) = Inl NoOptionError"
    using assms(3) by (simp add: recent_update_def sec)
  have "recent_load_loop ?c (r\<lparr>val := take 0 (val r)\<rparr>) 0 = (None, r)"
    using load_loop_written [OF inv wr stop, of "length (val r)" 0] by simp
  then show ?thesis by (simp add: recent_load_def)
qed

lemma encode_a: "encode_entry (lit ''a'') = Inr (lit ''YQ=='')"
  by (simp add: encode_entry_eq lit_simps utf8_encode_char_def encodebytes.simps
      b2a_base64_def b64_char_def bytes_strip_def bytes_space_def)

lemma encode_zzz: "encode_entry (lit ''zzz'') = Inr (lit ''enp6'')"
  by (simp add: encode_entry_eq lit_simps utf8_encode_char_def encodebytes.simps
      b2a_base64_def b64_char_def bytes_strip_def bytes_space_def)

lemma one_recent_fields:
  "val one_recent = [lit ''a'']" "section_name one_recent = lit ''recent''"
  "base_token one_recent = lit ''documents''" "max_length one_recent = 3"
  by (simp_all add: one_recent_def push_def recent_init_def strip_def is_space_def
      lit_simps Let_def)

lemma one_recent_keys:
  "recent_key one_recent 0 = lit ''documents_0''"
  "recent_key one_recent 1 = lit ''documents_1''"
  "recent_key one_recent 2 = lit ''documents_2''"
  by (simp_all add: recent_key_def one_recent_fields lit_simps py_str_def str_nat.simps)

theorem recent_update_load_roundtrip_witness:
  "one_recent = push_all (recent_init (lit ''recent'') (lit ''documents'') 3) [lit ''a'']
   \<and> fst (recent_update [] one_recent) = None
   \<and> cfg_get [] (lit ''recent'') (recent_key one_recent (length (val one_recent)))
      = Inl NoOptionError
   \<and> recent_load (snd (recent_update [] one_recent))
        (one_recent\<lparr>val := [lit ''x'', lit ''y'']\<rparr>) = (None, one_recent)"
proof -
  have h1: "one_recent = push_all (recent_init (lit ''recent'') (lit ''documents'') 3) [lit ''a'']"
    by (simp add: one_recent_def)
  have h2: "fst (recent_update [] one_recent) = None"
    by (simp add: recent_update_def one_recent_fields encode_a)
  have h3: "cfg_get [] (lit ''recent'') (recent_key one_recent (length (val one_recent)))
      = Inl NoOptionError"
    by (simp add: cfg_get_def)
  from recent_update_load_roundtrip [OF h1 h2 h3, of "[lit ''x'', lit ''y'']"] h1 h2 h3
  show ?thesis by blast
qed

text \<open>
  The claim C6 as stated fails: after \<open>update\<close> of the one-entry list against the store
  that still holds position 1 of an older list, \<open>load\<close> gives two entries.
\<close>

theorem recent_roundtrip_stale_counterexample:
  "one_recent = push (recent_init (lit ''recent'') (lit ''documents'') 3) (lit ''a'')
   \<and> val one_recent = [lit ''a'']
   \<and> fst (recent_update stale_store one_recent) = None
   \<and> recent_load (snd (recent_update stale_store one_recent)) one_recent
      = (None, one_recent\<lparr>val := [lit ''a'', lit ''zzz'']\<rparr>)"
proof -
  let ?c = "snd (recent_update stale_store one_recent)"
  have u: "recent_update stale_store one_recent
           = (None, [((lit ''recent'', lit ''documents_1''), lit ''enp6''),
                     ((lit ''recent'', lit ''documents_0''), lit ''YQ=='')])"
  proof -
    have ne: "lit ''documents_1'' \<noteq> lit ''documents_0''" by (simp add: lit_simps)
    show ?thesis
      by (simp add: recent_update_def one_recent_fields one_recent_keys encode_a cfg_set_def
          stale_store_def ne)
  qed
  have g: "cfg_get ?c (lit ''recent'') (lit ''documents_0'') = Inr (lit ''YQ=='')"
    "cfg_get ?c (lit ''recent'') (lit ''documents_1'') = Inr (lit ''enp6'')"
    "cfg_get ?c (lit ''recent'') (lit ''documents_2'') = Inl NoOptionError"
    by (simp_all add: u cfg_get_def lit_simps)
  have d: "decode_entry (lit ''YQ=='') = Inr (lit ''a'')"
    "decode_entry (lit ''enp6'') = Inr (lit ''zzz'')"
    by (rule entry_roundtrip [OF encode_a], rule entry_roundtrip [OF encode_zzz])
  let ?r0 = "one_recent\<lparr>val := []\<rparr>"
  have p1: "push ?r0 (lit ''a'') = one_recent"
    by (simp add: one_recent_def push_def recent_init_def strip_def is_space_def
        lit_simps Let_def)
  have p2: "push one_recent (lit ''zzz'') = one_recent\<lparr>val := [lit ''a'', lit ''zzz'']\<rparr>"
    by (simp add: one_recent_def push_def recent_init_def strip_def is_space_def
        lit_simps Let_def)
  let ?r2 = "one_recent\<lparr>val := [lit ''a'', lit ''zzz'']\<rparr>"
  have k: "recent_key ?r0 0 = lit ''documents_0''"
    "recent_key one_recent (Suc 0) = lit ''documents_1''"
    "recent_key ?r2 (Suc (Suc 0)) = lit ''documents_2''"
    using one_recent_keys by (simp_all add: recent_key_def numeral_2_eq_2)
  have s: "section_name ?r0 = lit ''recent''" "section_name ?r2 = lit ''recent''"
    by (simp_all add: one_recent_fields)
  have l2: "recent_load_loop ?c ?r2 (Suc (Suc 0)) = (None, ?r2)"
    by (subst recent_load_loop.simps) (simp add: k s g)
  have l1: "recent_load_loop ?c one_recent (Suc 0) = (None, ?r2)"
    by (subst recent_load_loop.simps) (simp add: k one_recent_fields g d p2 l2)
  have l0: "recent_load_loop ?c ?r0 0 = (None, ?r2)"
    by (subst recent_load_loop.simps) (simp add: k s g d p1 l1)
  have "recent_load ?c one_recent = (None, ?r2)"
    by (simp add: recent_load_def l0)
  then show ?thesis
    by (simp add: one_recent_def [symmetric] one_recent_fields u)
qed

section \<open>Device Initializer: resolution and fallback\<close>

text \<open>
  C8. When the device is open, its source is set, it has a resolution option and the
  driver rejects the configured resolution, \<open>_get_scanner\<close> goes on with the mode and the
  scan area and returns the resolution that the device reports after the rejected call;
  \<open>get_scanner\<close> returns the same to its caller.
\<close>

theorem resolution_rejected_reads_back:
  assumes "open_scanner drv (scanner_devid config) = Inr d0"
    and "set_source drv config preferred_sources d0 = Inr d1"
    and "map_of (dev_options drv d1) (lit ''resolution'') \<noteq> None"
    and "set_scanner_opt drv d1 (lit ''resolution'') [OptInt (scanner_resolution config)]
           = (Some msg, d2)"
    and "map_of (dev_options drv d2) (lit ''resolution'') = Some v"
    and "int_of_opt v = Inr r"
  shows "get_scanner_priv drv config (scanner_devid config) preferred_sources
           = Inr (maximize drv (set_mode drv d2), r)
       \<and> get_scanner drv config preferred_sources = Inr (maximize drv (set_mode drv d2), r)"
proof -
  have res: "set_resolution drv config d1 = Inr (d2, r)"
    using assms(3-6) by (auto simp: set_resolution_def Let_def)
  have priv: "get_scanner_priv drv config (scanner_devid config) preferred_sources
           = Inr (maximize drv (set_mode drv d2), r)"
    using assms(1,2) res by (simp add: get_scanner_priv_def)
  then show ?thesis by (simp add: get_scanner_def)
qed

text \<open>
  A flatbed scanner that reports 150 dpi and rejects every other resolution; the state
  of the device is its current resolution.
\<close>

definition fixed_resolution_driver :: "int driver" where
  "fixed_resolution_driver =
     \<lparr>open_scanner = (\<lambda>devid. if devid = Some (lit ''scanner0'') then Inr 150
                               else Inl (PyinsaneException (lit ''no such device''))),
      dev_options = (\<lambda>dev. [(lit ''source'', OptStr (lit ''Flatbed'')),
                             (lit ''resolution'', OptInt dev),
                             (lit ''mode'', OptStr (lit ''Gray''))]),
      set_scanner_opt = (\<lambda>dev opt vs.
         if opt = lit ''resolution'' \<and> vs \<noteq> [OptInt dev]
         then (Some (lit ''rejected''), dev) else (None, dev)),
      maximize_scan_area = (\<lambda>dev. (None, dev)),
      get_devices = Inr [lit ''scanner0'']\<rparr>"

definition config300 :: registry where
  "config300 = \<lparr>scanner_devid = Some (lit ''scanner0''), scanner_source = None,
                 scanner_resolution = 300\<rparr>"

theorem resolution_rejected_reads_back_witness:
  "open_scanner fixed_resolution_driver (scanner_devid config300) = Inr 150
   \<and> set_source fixed_resolution_driver config300 None 150 = Inr 150
   \<and> map_of (dev_options fixed_resolution_driver 150) (lit ''resolution'') \<noteq> None
   \<and> set_scanner_opt fixed_resolution_driver 150 (lit ''resolution'')
        [OptInt (scanner_resolution config300)] = (Some (lit ''rejected''), 150)
   \<and> map_of (dev_options fixed_resolution_driver 150) (lit ''resolution'') = Some (OptInt 150)
   \<and> int_of_opt (OptInt 150) = Inr 150
   \<and> get_scanner fixed_resolution_driver config300 None = Inr (150, 150)"
proof -
  have h1: "open_scanner fixed_resolution_driver (scanner_devid config300) = Inr 150"
    by (simp add: fixed_resolution_driver_def config300_def)
  have h2: "set_source fixed_resolution_driver config300 None 150 = Inr 150"
    by (simp add: set_source_def fixed_resolution_driver_def config300_def lit_simps)
  have h3: "map_of (dev_options fixed_resolution_driver 150) (lit ''resolution'') \<noteq> None"
    by (simp add: fixed_resolution_driver_def lit_simps)
  have h4: "set_scanner_opt fixed_resolution_driver 150 (lit ''resolution'')
        [OptInt (scanner_resolution config300)] = (Some (lit ''rejected''), 150)"
    by (simp add: fixed_resolution_driver_def config300_def)
  have h5: "map_of (dev_options fixed_resolution_driver 150) (lit ''resolution'')
              = Some (OptInt 150)"
    by (simp add: fixed_resolution_driver_def lit_simps)
  have h6: "int_of_opt (OptInt 150) = Inr 150"
    by (simp add: int_of_opt_def)
  have m: "maximize fixed_resolution_driver (set_mode fixed_resolution_driver 150) = 150"
    by (simp add: maximize_def set_mode_def fixed_resolution_driver_def)
  from resolution_rejected_reads_back [OF h1 h2 h3 h4 h5 h6] m
  have "get_scanner fixed_resolution_driver config300 None = Inr (150, 150)" by simp
  with h1 h2 h3 h4 h5 h6 show ?thesis by blast
qed

text \<open>What \<open>get_scanner\<close> does once the configured device has failed. \<close>

lemma get_scanner_fallback:
  assumes "get_scanner_priv drv config (scanner_devid config) preferred_sources = Inl exc"
    and "is_KeyError exc \<or> is_PyinsaneException exc"
  shows "get_scanner drv config preferred_sources =
     (case get_devices drv of
        Inl e \<Rightarrow> if is_PyinsaneException e then Inl exc else Inl e
      | Inr all_devices \<Rightarrow>
          (case filter (\<lambda>x. take 4 x \<noteq> lit ''v4l:'') all_devices of
             [x] \<Rightarrow>
               (case get_scanner_priv drv config (Some x) preferred_sources of
                  Inr res \<Rightarrow> Inr res
                | Inl e \<Rightarrow> if is_PyinsaneException e then Inl exc else Inl e)
           | _ \<Rightarrow> Inl exc))"
  using assms
  by (auto simp: get_scanner_def Let_def split: sum.splits list.splits)

text \<open>
  A driver for which the configured device \<open>X\<close> fails with the driver's exception, the
  enumeration gives a webcam and the device \<open>Y\<close>, and opening \<open>Y\<close> fails with \<open>KeyError\<close>.
\<close>

definition vanishing_driver :: "unit driver" where
  "vanishing_driver =
     \<lparr>open_scanner = (\<lambda>devid. if devid = Some (lit ''X'') then Inl (PyinsaneException (lit ''X''))
                               else Inl (KeyError (lit ''Y''))),
      dev_options = (\<lambda>dev. []),
      set_scanner_opt = (\<lambda>dev opt vs. (None, dev)),
      maximize_scan_area = (\<lambda>dev. (None, dev)),
      get_devices = Inr [lit ''v4l:/dev/video0'', lit ''Y'']\<rparr>"

definition configX :: registry where
  "configX = \<lparr>scanner_devid = Some (lit ''X''), scanner_source = None,
               scanner_resolution = 300\<rparr>"

text \<open>
  C3 at this driver: the caller of \<open>get_scanner\<close> sees the \<open>KeyError\<close> of the fallback, not
  the exception of the configured device.
\<close>

theorem get_scanner_fallback_keyerror:
  "get_scanner_priv vanishing_driver configX (scanner_devid configX) None
     = Inl (PyinsaneException (lit ''X''))
   \<and> get_devices vanishing_driver = Inr [lit ''v4l:/dev/video0'', lit ''Y'']
   \<and> filter (\<lambda>x. take 4 x \<noteq> lit ''v4l:'') [lit ''v4l:/dev/video0'', lit ''Y''] = [lit ''Y'']
   \<and> get_scanner_priv vanishing_driver configX (Some (lit ''Y'')) None = Inl (KeyError (lit ''Y''))
   \<and> get_scanner vanishing_driver configX None = Inl (KeyError (lit ''Y''))"
  by (simp add: get_scanner_def get_scanner_priv_def vanishing_driver_def configX_def lit_simps)

end
